theory Spec2Isabelle
  imports Main
begin

section \<open>Text primitives\<close>

text \<open>
  A Python \<open>str\<close> is modelled as a \<open>string\<close> whose characters are the code points
  0 to 255. Within that range the classes below are exactly the ones Python uses:
  \<open>str.strip\<close> and the pattern class \<open>\s\<close> remove or match the characters for which
  \<open>str.isspace\<close> holds, \<open>\d\<close> matches the ASCII digits only, and \<open>str.splitlines\<close>
  breaks at the characters listed in \<open>is_linebreak\<close>. The euro sign and the em dash of
  the source's patterns lie outside the range and never occur in a modelled text.
\<close>

definition is_space :: "char \<Rightarrow> bool" where
  "is_space c = (c \<in> set [CHR 0x09, CHR 0x0A, CHR 0x0B, CHR 0x0C, CHR 0x0D,
                           CHR 0x1C, CHR 0x1D, CHR 0x1E, CHR 0x1F, CHR 0x20,
                           CHR 0x85, CHR 0xA0])"

definition is_linebreak :: "char \<Rightarrow> bool" where
  "is_linebreak c = (c \<in> set [CHR 0x0A, CHR 0x0B, CHR 0x0C, CHR 0x0D,
                               CHR 0x1C, CHR 0x1D, CHR 0x1E, CHR 0x85])"

definition is_digit :: "char \<Rightarrow> bool" where
  "is_digit c = (c \<in> set ''0123456789'')"

definition lstrip :: "string \<Rightarrow> string" where
  "lstrip s = dropWhile is_space s"

definition rstrip :: "string \<Rightarrow> string" where
  "rstrip s = rev (dropWhile is_space (rev s))"

definition strip :: "string \<Rightarrow> string" where
  "strip s = rstrip (lstrip s)"

text \<open>\<open>s.rstrip(":")\<close>\<close>

definition rstrip_colon :: "string \<Rightarrow> string" where
  "rstrip_colon s = rev (dropWhile (\<lambda>c. c = CHR '':'') (rev s))"

text \<open>\<open>sep.join(xs)\<close>\<close>

fun join :: "string \<Rightarrow> string list \<Rightarrow> string" where
  "join sep [] = []"
| "join sep [x] = x"
| "join sep (x # y # ys) = x @ sep @ join sep (y # ys)"

text \<open>
  \<open>text.splitlines()\<close>: \<open>cur\<close> is the line being read. A carriage return followed by
  a line feed is one break; a last line without a break is kept, an empty one is not.
\<close>

fun splitlines_from :: "string \<Rightarrow> string \<Rightarrow> string list" where
  "splitlines_from cur [] = (if cur = [] then [] else [cur])"
| "splitlines_from cur (c # s) =
     (if c = CHR 0x0D then
        (case s of
           [] \<Rightarrow> [cur]
         | d # s' \<Rightarrow> if d = CHR 0x0A then cur # splitlines_from [] s'
                     else cur # splitlines_from [] (d # s'))
      else if is_linebreak c then cur # splitlines_from [] s
      else splitlines_from (cur @ [c]) s)"

definition splitlines :: "string \<Rightarrow> string list" where
  "splitlines s = splitlines_from [] s"

text \<open>\<open>sub in s\<close> on strings\<close>

fun starts_with :: "string \<Rightarrow> string \<Rightarrow> bool" where
  "starts_with [] s = True"
| "starts_with (p # ps) [] = False"
| "starts_with (p # ps) (c # s) = (p = c \<and> starts_with ps s)"

fun contains :: "string \<Rightarrow> string \<Rightarrow> bool" where
  "contains sub [] = (sub = [])"
| "contains sub (c # s) = (starts_with sub (c # s) \<or> contains sub s)"

text \<open>\<open>s.lower()\<close> and \<open>s.upper()\<close>; only the ASCII letters matter to the source.\<close>

definition lower_char :: "char \<Rightarrow> char" where
  "lower_char c =
     (case map_of (zip ''ABCDEFGHIJKLMNOPQRSTUVWXYZ'' ''abcdefghijklmnopqrstuvwxyz'') c of
        Some d \<Rightarrow> d | None \<Rightarrow> c)"

definition upper_char :: "char \<Rightarrow> char" where
  "upper_char c =
     (case map_of (zip ''abcdefghijklmnopqrstuvwxyz'' ''ABCDEFGHIJKLMNOPQRSTUVWXYZ'') c of
        Some d \<Rightarrow> d | None \<Rightarrow> c)"

section \<open>Numbers\<close>

datatype error = ValueError | TypeError

text \<open>Decimal numerals: \<open>str(n)\<close> for an integer and the value of a digit string.\<close>

definition digit_char :: "int \<Rightarrow> char" where
  "digit_char n = ''0123456789'' ! nat (n mod 10)"

function show_nat :: "int \<Rightarrow> string" where
  "show_nat n = (if n < 10 then [digit_char n] else show_nat (n div 10) @ [digit_char n])"
  by pat_completeness auto
termination
  by (relation "measure nat") auto

declare show_nat.simps [simp del]

definition show_int :: "int \<Rightarrow> string" where
  "show_int i = (if i < 0 then CHR ''-'' # show_nat (- i) else show_nat i)"

definition digit_val :: "char \<Rightarrow> int" where
  "digit_val c = (case map_of (zip ''0123456789'' [0, 1, 2, 3, 4, 5, 6, 7, 8, 9]) c of
                    Some d \<Rightarrow> d | None \<Rightarrow> 0)"

definition int_of_digits :: "string \<Rightarrow> int" where
  "int_of_digits s = foldl (\<lambda>a c. 10 * a + digit_val c) 0 s"

text \<open>
  \<open>int(s)\<close> on a string of digits. CPython refuses a digit string longer than 4300
  characters with a \<open>ValueError\<close> (its default limit on integer string conversion).
\<close>

definition py_int :: "string \<Rightarrow> error + int" where
  "py_int s = (if length s > 4300 then Inl ValueError else Inr (int_of_digits s))"

text \<open>
  A Python \<open>float\<close> is an IEEE 754 double: \<open>Finite m e\<close> is the number \<open>m * 2 ^ e\<close>
  (zero with \<open>m = 0\<close>), next to negative zero, the two infinities and not-a-number.
\<close>

datatype pyfloat = Finite int int | NegZero | PosInf | NegInf | NaN

text \<open>Truth value of a float: every float but the two zeros is true.\<close>

fun truthy_float :: "pyfloat \<Rightarrow> bool" where
  "truthy_float (Finite m e) = (m \<noteq> 0)"
| "truthy_float NegZero = False"
| "truthy_float _ = True"

text \<open>\<open>n / d\<close> (for \<open>n \<ge> 0\<close>, \<open>d > 0\<close>) rounded to the nearest integer, a tie to the even one.\<close>

definition round_half_even :: "int \<Rightarrow> int \<Rightarrow> int" where
  "round_half_even n d =
     (let q = n div d; r = n mod d
      in if 2 * r < d then q
         else if d < 2 * r then q + 1
         else if even q then q else q + 1)"

text \<open>The number of binary digits of a positive integer.\<close>

function bitlen :: "int \<Rightarrow> int" where
  "bitlen n = (if n \<le> 0 then 0 else 1 + bitlen (n div 2))"
  by pat_completeness auto
termination
  by (relation "measure nat") auto

declare bitlen.simps [simp del]

text \<open>
  The double nearest to \<open>a / b\<close> (for \<open>a \<ge> 0\<close>, \<open>b > 0\<close>), ties to the even mantissa: the
  mantissa has 53 bits, the least exponent of the last bit is -1074, and a result of
  \<open>2 ^ 1024\<close> or more is infinity.
\<close>

definition to_double :: "int \<Rightarrow> int \<Rightarrow> pyfloat" where
  "to_double a b =
     (if a = 0 then Finite 0 0
      else
        let e0 = bitlen a - bitlen b;
            below = (if 0 \<le> e0 then a < b * 2 ^ nat e0 else a * 2 ^ nat (- e0) < b);
            e = (if below then e0 - 1 else e0);
            qe = max (e - 52) (- 1074);
            m = (if 0 \<le> qe then round_half_even a (b * 2 ^ nat qe)
                 else round_half_even (a * 2 ^ nat (- qe)) b)
        in if 0 \<le> qe \<and> 2 ^ 1024 \<le> m * 2 ^ nat qe then PosInf else Finite m qe)"

text \<open>
  \<open>float(s)\<close> on the strings the source passes to it: every call site passes the text
  captured by \<open>\d+(?:\.\d+)?\<close>, digits with an optional fraction. Any other string
  is \<open>None\<close> here, which stands for the \<open>ValueError\<close> that \<open>safe_float\<close> catches.
\<close>

definition float_of_decimal :: "string \<Rightarrow> pyfloat option" where
  "float_of_decimal s =
     (let ip = takeWhile is_digit s; rest = dropWhile is_digit s
      in if ip = [] then None
         else (case rest of
                 [] \<Rightarrow> Some (to_double (int_of_digits ip) 1)
               | c # fp \<Rightarrow>
                   if c = CHR ''.'' \<and> fp \<noteq> [] \<and> list_all is_digit fp
                   then Some (to_double (int_of_digits (ip @ fp)) (10 ^ length fp))
                   else None))"

definition safe_float :: "string \<Rightarrow> pyfloat \<Rightarrow> pyfloat" where
  "safe_float s dflt = (case float_of_decimal s of Some x \<Rightarrow> x | None \<Rightarrow> dflt)"

text \<open>
  \<open>f"{x:.2f}"\<close>: the exact value of the double rounded to hundredths, a tie to the even
  one, printed with two digits after the point.
\<close>

definition two_digits :: "int \<Rightarrow> string" where
  "two_digits n = [digit_char (n div 10), digit_char n]"

definition fmt_cents :: "int \<Rightarrow> string" where
  "fmt_cents c = show_nat (c div 100) @ ''.'' @ two_digits (c mod 100)"

fun fmt2 :: "pyfloat \<Rightarrow> string" where
  "fmt2 (Finite m e) =
     (if m < 0 then ''-'' else '''') @
     fmt_cents (if 0 \<le> e then \<bar>m\<bar> * 2 ^ nat e * 100
                else round_half_even (\<bar>m\<bar> * 100) (2 ^ nat (- e)))"
| "fmt2 NegZero = ''-0.00''"
| "fmt2 PosInf = ''inf''"
| "fmt2 NegInf = ''-inf''"
| "fmt2 NaN = ''nan''"

section \<open>Data model\<close>

record seat =
  num :: int
  name :: string
  stack :: "pyfloat option"

record action =
  street :: string
  actor :: string
  verb :: string
  amount :: "pyfloat option"
  to_amount :: "pyfloat option"
  cards :: "string option"
  raw :: string

record datetime =
  year :: int
  month :: int
  day :: int
  hour :: int
  minute :: int
  second :: int

record hand =
  site :: string
  hand_id :: "string option"
  game :: string
  stakes :: "pyfloat \<times> pyfloat"
  currency :: string
  date_utc :: "datetime option"
  table_name :: "string option"
  max_players :: "int option"
  button_seat :: "int option"
  seats :: "seat list"
  blinds :: "string \<rightharpoonup> string \<times> pyfloat"
  hero :: "string option"
  hero_hole :: "string option"
  board :: "string \<rightharpoonup> string"
  actions :: "action list"
  pots :: "string \<rightharpoonup> pyfloat"

text \<open>The constructors with the defaults of the dataclasses.\<close>

definition Action :: "string \<Rightarrow> string \<Rightarrow> string \<Rightarrow> pyfloat option \<Rightarrow> string option \<Rightarrow> string \<Rightarrow> action" where
  "Action st nm vb amt cds ln =
     \<lparr>street = st, actor = nm, verb = vb, amount = amt, to_amount = None, cards = cds, raw = ln\<rparr>"

definition Hand :: hand where
  "Hand = \<lparr>site = ''Pokerdom'', hand_id = None, game = ''Hold'' @ [CHR 0x27] @ ''em No Limit'',
           stakes = (Finite 0 0, Finite 0 0), currency = ''$'', date_utc = None,
           table_name = None, max_players = None, button_seat = None, seats = [],
           blinds = Map.empty, hero = None, hero_hole = None, board = Map.empty,
           actions = [], pots = Map.empty\<rparr>"

section \<open>The PokerStars writer\<close>

definition CURRENCY_SIGNS :: "string \<rightharpoonup> string" where
  "CURRENCY_SIGNS = map_of [(''$'', ''$''), ([CHR 0xA3], [CHR 0xA3]), ([CHR 0xA5], [CHR 0xA5])]"

text \<open>\<open>x or d\<close> on an optional string: \<open>None\<close> and the empty string are false.\<close>

definition str_or :: "string option \<Rightarrow> string \<Rightarrow> string" where
  "str_or x d = (case x of None \<Rightarrow> d | Some s \<Rightarrow> if s = [] then d else s)"

text \<open>
  \<open>d.strftime("%Y/%m/%d %H:%M:%S ET")\<close>: month, day, hour, minute and second are
  padded with zeros to two digits; the year is printed as the C library prints it, which
  on Linux is without padding (a year from 1000 on has its four digits either way).
\<close>

definition zero_pad :: "nat \<Rightarrow> string \<Rightarrow> string" where
  "zero_pad w s = replicate (w - length s) CHR ''0'' @ s"

definition strftime_ET :: "datetime \<Rightarrow> string" where
  "strftime_ET d =
     show_nat (year d) @ ''/'' @ zero_pad 2 (show_nat (month d)) @ ''/'' @
     zero_pad 2 (show_nat (day d)) @ '' '' @ zero_pad 2 (show_nat (hour d)) @ '':'' @
     zero_pad 2 (show_nat (minute d)) @ '':'' @ zero_pad 2 (show_nat (second d)) @ '' ET''"

definition format_action :: "action \<Rightarrow> string \<Rightarrow> string option" where
  "format_action a cur =
     (if verb a = ''folds'' \<or> verb a = ''checks'' then Some (actor a @ '': '' @ verb a)
      else if verb a = ''calls'' \<or> verb a = ''bets'' then
        (case amount a of
           Some x \<Rightarrow> Some (actor a @ '': '' @ verb a @ '' '' @ cur @ fmt2 x)
         | None \<Rightarrow> Some (actor a @ '': '' @ verb a))
      else if verb a = ''raises'' then
        (case amount a of
           Some x \<Rightarrow> Some (actor a @ '': raises to '' @ cur @ fmt2 x)
         | None \<Rightarrow> Some (actor a @ '': raises''))
      else if verb a = ''collected'' then None
      else Some (''# '' @ raw a))"

text \<open>
  \<open>PokerStarsWriter.write\<close> is \<open>write_hand\<close> below; these are its pieces, in the
  order in which it appends to \<open>out\<close>.
\<close>

definition write_cur :: "hand \<Rightarrow> string" where
  "write_cur h = (case CURRENCY_SIGNS (currency h) of Some c \<Rightarrow> c | None \<Rightarrow> ''$'')"

definition stakes_text :: "hand \<Rightarrow> string" where
  "stakes_text h =
     (let cur = write_cur h; sb = fst (stakes h); bb = snd (stakes h)
      in if truthy_float bb then ''('' @ cur @ fmt2 sb @ ''/'' @ cur @ fmt2 bb @ '')'' else [])"

definition header_line :: "hand \<Rightarrow> string" where
  "header_line h =
     (let dt = (case date_utc h of Some d \<Rightarrow> strftime_ET d | None \<Rightarrow> []);
          hid = str_or (hand_id h) ''0000000000''
      in strip (''PokerStars Hand #'' @ hid @ '': '' @ game h @ '' '' @ stakes_text h @
                '' - '' @ dt))"

definition table_line :: "hand \<Rightarrow> string" where
  "table_line h =
     (let table = str_or (table_name h) ''Pokerdom Table'';
          maxp = (case max_players h of
                    None \<Rightarrow> []
                  | Some n \<Rightarrow> if n = 0 then [] else show_int n @ ''-max'');
          btn = (case button_seat h of
                   None \<Rightarrow> ''Seat #1''
                 | Some n \<Rightarrow> if n = 0 then ''Seat #1'' else ''Seat #'' @ show_int n)
      in ''Table '' @ [CHR 0x27] @ table @ [CHR 0x27] @ '' '' @ maxp @ '' '' @ btn)"

definition seat_line :: "string \<Rightarrow> seat \<Rightarrow> string" where
  "seat_line cur s =
     (let stk = (case stack s of Some x \<Rightarrow> cur @ fmt2 x | None \<Rightarrow> [])
      in ''Seat '' @ show_int (num s) @ '': '' @ name s @ '' ('' @ stk @ '' in chips)'')"

definition blind_lines :: "hand \<Rightarrow> string list" where
  "blind_lines h =
     (let cur = write_cur h
      in (case blinds h ''SB'' of
            Some (nm, amt) \<Rightarrow> [nm @ '': posts small blind '' @ cur @ fmt2 amt]
          | None \<Rightarrow> []) @
         (case blinds h ''BB'' of
            Some (nm, amt) \<Rightarrow> [nm @ '': posts big blind '' @ cur @ fmt2 amt]
          | None \<Rightarrow> []))"

definition dealt_lines :: "hand \<Rightarrow> string list" where
  "dealt_lines h =
     (case (hero h, hero_hole h) of
        (Some p, Some c) \<Rightarrow>
          if p \<noteq> [] \<and> c \<noteq> [] then [''Dealt to '' @ p @ '' ['' @ c @ '']''] else []
      | _ \<Rightarrow> [])"

definition dump_street :: "hand \<Rightarrow> string \<Rightarrow> string \<Rightarrow> string list" where
  "dump_street h tag label =
     (let street_actions = filter (\<lambda>a. street a = tag) (actions h)
      in if street_actions = [] \<and> tag \<noteq> ''PREFLOP'' then []
         else
           (if tag = ''PREFLOP'' then []
            else (let b = (case board h tag of Some b \<Rightarrow> b | None \<Rightarrow> [])
                  in [if b = [] then ''*** '' @ label @ '' ***''
                      else ''*** '' @ label @ '' '' @ b @ '' ***''])) @
           filter (\<lambda>l. l \<noteq> [])
             (List.map_filter (\<lambda>a. format_action a (write_cur h)) street_actions))"

definition showdown_section :: "hand \<Rightarrow> string list" where
  "showdown_section h =
     (let sd = filter (\<lambda>a. street a = ''SHOWDOWN'') (actions h)
      in if sd = [] then []
         else ''*** SHOW DOWN ***'' #
              List.map_filter
                (\<lambda>a. case cards a of
                        Some c \<Rightarrow> if verb a = ''showed'' \<and> c \<noteq> []
                                  then Some (actor a @ '': shows ['' @ c @ '']'') else None
                      | None \<Rightarrow> None) sd)"

text \<open>
  The summary formats \<open>a.amount\<close> with \<open>:.2f\<close> without looking whether it is
  \<open>None\<close>: formatting \<open>None\<close> that way raises a \<open>TypeError\<close>.
\<close>

fun collected_lines :: "string \<Rightarrow> action list \<Rightarrow> error + string list" where
  "collected_lines cur [] = Inr []"
| "collected_lines cur (a # as) =
     (case amount a of
        None \<Rightarrow> Inl TypeError
      | Some x \<Rightarrow>
          (case collected_lines cur as of
             Inl e \<Rightarrow> Inl e
           | Inr ls \<Rightarrow> Inr ((actor a @ '' collected '' @ cur @ fmt2 x) # ls)))"

definition summary_section :: "hand \<Rightarrow> error + string list" where
  "summary_section h =
     (let coll = filter (\<lambda>a. verb a = ''collected'') (actions h)
      in if coll = [] then Inr []
         else (case collected_lines (write_cur h) coll of
                 Inl e \<Rightarrow> Inl e
               | Inr ls \<Rightarrow> Inr (''*** SUMMARY ***'' # ls)))"

definition write_lines :: "hand \<Rightarrow> error + string list" where
  "write_lines h =
     (let out = [header_line h, table_line h] @
                map (seat_line (write_cur h)) (sort_key num (seats h)) @
                blind_lines h @
                [''*** HOLE CARDS ***''] @ dealt_lines h @
                dump_street h ''PREFLOP'' ''HOLE CARDS'' @
                dump_street h ''FLOP'' ''FLOP'' @
                dump_street h ''TURN'' ''TURN'' @
                dump_street h ''RIVER'' ''RIVER'' @
                showdown_section h
      in case summary_section h of
           Inl e \<Rightarrow> Inl e
         | Inr ls \<Rightarrow> Inr (out @ ls))"

definition write_hand :: "hand \<Rightarrow> error + string" where
  "write_hand h = (case write_lines h of
                Inl e \<Rightarrow> Inl e
              | Inr out \<Rightarrow> Inr (join [CHR 0x0A] out @ [CHR 0x0A]))"

section \<open>Regular expressions\<close>

text \<open>
  The patterns of the source are written in the fragment of Python's \<open>re\<close> syntax
  below, and matched the way \<open>re\<close> matches them: by backtracking, the alternatives of
  \<open>|\<close> from left to right, a greedy repetition from the longest run down, a lazy one
  from the shortest run up, and the first match found is the result. Every pattern of
  \<open>PokerdomParser\<close> is compiled with \<open>re.IGNORECASE\<close>, so a literal and a set match a
  letter in either case; the one pattern compiled without it, in \<open>parse_money\<close>, has no
  letter.
\<close>

datatype cclass =
    AnyChar              \<comment> \<open>\<open>.\<close>: every character but the line feed\<close>
  | Digit                \<comment> \<open>\<open>\d\<close>\<close>
  | Space                \<comment> \<open>\<open>\s\<close>\<close>
  | OneOf string         \<comment> \<open>\<open>[...]\<close>\<close>
  | NoneOf string        \<comment> \<open>\<open>[^...]\<close>\<close>

fun in_class :: "cclass \<Rightarrow> char \<Rightarrow> bool" where
  "in_class AnyChar c = (c \<noteq> CHR 0x0A)"
| "in_class Digit c = is_digit c"
| "in_class Space c = is_space c"
| "in_class (OneOf cs) c = (lower_char c \<in> set (map lower_char cs))"
| "in_class (NoneOf cs) c = (lower_char c \<notin> set (map lower_char cs))"

datatype regex =
    Lit string                              \<comment> \<open>literal text\<close>
  | One cclass                              \<comment> \<open>one character of a class\<close>
  | Rep cclass nat "nat option" bool        \<comment> \<open>\<open>c{lo,hi}\<close>, greedy or lazy (\<open>c{lo,hi}?\<close>)\<close>
  | Seq regex regex                         \<comment> \<open>\<open>ab\<close>\<close>
  | Alt regex regex                         \<comment> \<open>\<open>a|b\<close>\<close>
  | Opt regex                               \<comment> \<open>\<open>(?:a)?\<close>\<close>
  | Group string regex                      \<comment> \<open>\<open>(?P<name>a)\<close>\<close>

abbreviation Star :: "cclass \<Rightarrow> regex" where
  "Star c \<equiv> Rep c 0 None True"

abbreviation Plus :: "cclass \<Rightarrow> regex" where
  "Plus c \<equiv> Rep c 1 None True"

abbreviation LazyStar :: "cclass \<Rightarrow> regex" where
  "LazyStar c \<equiv> Rep c 0 None False"

abbreviation LazyPlus :: "cclass \<Rightarrow> regex" where
  "LazyPlus c \<equiv> Rep c 1 None False"

abbreviation Maybe :: "cclass \<Rightarrow> regex" where
  "Maybe c \<equiv> Rep c 0 (Some 1) True"

abbreviation Exactly :: "nat \<Rightarrow> cclass \<Rightarrow> regex" where
  "Exactly n c \<equiv> Rep c n (Some n) True"

fun seqs :: "regex list \<Rightarrow> regex" where
  "seqs [] = Lit []"
| "seqs [r] = r"
| "seqs (r # rs) = Seq r (seqs rs)"

fun alts :: "regex list \<Rightarrow> regex" where
  "alts [] = Lit []"
| "alts [r] = r"
| "alts (r # rs) = Alt r (alts rs)"

text \<open>
  The named groups that took part in a match, the latest first. \<open>m.group(name)\<close> of a
  group that took no part is \<open>None\<close>.
\<close>

type_synonym captures = "(string \<times> string) list"

definition opt_grp :: "captures \<Rightarrow> string \<Rightarrow> string option" where
  "opt_grp m nm = map_of m nm"

text \<open>
  A group outside every optional part and alternative takes part in every match of its
  pattern; \<open>grp\<close> reads such a group.
\<close>

definition grp :: "captures \<Rightarrow> string \<Rightarrow> string" where
  "grp m nm = (case map_of m nm of Some s \<Rightarrow> s | None \<Rightarrow> [])"

text \<open>
  The matcher takes the rest of the match as a continuation \<open>k\<close>: \<open>k\<close> gets the text
  left and the groups so far, and a \<open>None\<close> from it makes the matcher try its next
  choice.
\<close>

fun starts_with_ci :: "string \<Rightarrow> string \<Rightarrow> bool" where
  "starts_with_ci [] s = True"
| "starts_with_ci (p # ps) [] = False"
| "starts_with_ci (p # ps) (c # s) = (lower_char p = lower_char c \<and> starts_with_ci ps s)"

fun rep_greedy :: "(char \<Rightarrow> bool) \<Rightarrow> nat \<Rightarrow> nat option \<Rightarrow> (string \<Rightarrow> 'a option) \<Rightarrow> string \<Rightarrow> 'a option" where
  "rep_greedy p lo hi k [] = (if lo = 0 then k [] else None)"
| "rep_greedy p lo hi k (c # s) =
     (case (if p c \<and> hi \<noteq> Some 0
            then rep_greedy p (lo - 1) (map_option (\<lambda>n. n - 1) hi) k s else None) of
        Some r \<Rightarrow> Some r
      | None \<Rightarrow> if lo = 0 then k (c # s) else None)"

fun rep_lazy :: "(char \<Rightarrow> bool) \<Rightarrow> nat \<Rightarrow> nat option \<Rightarrow> (string \<Rightarrow> 'a option) \<Rightarrow> string \<Rightarrow> 'a option" where
  "rep_lazy p lo hi k [] = (if lo = 0 then k [] else None)"
| "rep_lazy p lo hi k (c # s) =
     (case (if lo = 0 then k (c # s) else None) of
        Some r \<Rightarrow> Some r
      | None \<Rightarrow> if p c \<and> hi \<noteq> Some 0
                then rep_lazy p (lo - 1) (map_option (\<lambda>n. n - 1) hi) k s else None)"

fun rx :: "regex \<Rightarrow> (string \<Rightarrow> captures \<Rightarrow> 'a option) \<Rightarrow> string \<Rightarrow> captures \<Rightarrow> 'a option" where
  "rx (Lit l) k s m = (if starts_with_ci l s then k (drop (length l) s) m else None)"
| "rx (One c) k s m =
     (case s of [] \<Rightarrow> None | x # t \<Rightarrow> if in_class c x then k t m else None)"
| "rx (Rep c lo hi greedy) k s m =
     (if greedy then rep_greedy (in_class c) lo hi (\<lambda>t. k t m) s
      else rep_lazy (in_class c) lo hi (\<lambda>t. k t m) s)"
| "rx (Seq a b) k s m = rx a (\<lambda>t m'. rx b k t m') s m"
| "rx (Alt a b) k s m = (case rx a k s m of Some r \<Rightarrow> Some r | None \<Rightarrow> rx b k s m)"
| "rx (Opt a) k s m = (case rx a k s m of Some r \<Rightarrow> Some r | None \<Rightarrow> k s m)"
| "rx (Group nm a) k s m =
     rx a (\<lambda>t m'. k t ((nm, take (length s - length t) s) # m')) s m"

text \<open>
  \<open>re.match\<close>: a match that starts at the first character. Without \<open>re.MULTILINE\<close> a
  pattern that begins with \<open>^\<close> matches nowhere else, so \<open>search\<close> with such a pattern
  is \<open>re_match\<close> as well. \<open>re_search\<close> is \<open>search\<close> with a pattern that has no \<open>^\<close>:
  the match at the leftmost position that has one.
\<close>

definition re_match :: "regex \<Rightarrow> string \<Rightarrow> captures option" where
  "re_match r s = rx r (\<lambda>t m. Some m) s []"

fun re_search :: "regex \<Rightarrow> string \<Rightarrow> captures option" where
  "re_search r [] = re_match r []"
| "re_search r (c # s) =
     (case re_match r (c # s) of Some m \<Rightarrow> Some m | None \<Rightarrow> re_search r s)"

section \<open>The patterns of the Pokerdom parser\<close>

text \<open>\<open>\d+(?:\.\d+)?\<close> and \<open>[$\<dots>]?\<close>, the currency signs within the modelled code points.\<close>

definition number :: regex where
  "number = Seq (Plus Digit) (Opt (Seq (Lit ''.'') (Plus Digit)))"

definition cur_sign :: regex where
  "cur_sign = Maybe (OneOf [CHR ''$'', CHR 0xA3, CHR 0xA5])"

definition holdem :: regex where
  "holdem = Alt (Lit (''Hold'' @ [CHR 0x27] @ ''em'')) (Lit ''Holdem'')"

definition pat_hand_header :: regex where
  "pat_hand_header = seqs
     [Lit ''Game'', Star Space, Maybe (OneOf ''#:''), Star Space, Group ''hid'' (Plus Digit),
      Star AnyChar, holdem, Star AnyChar,
      Group ''sb'' number, One (OneOf ''/ ''), Group ''bb'' number, Star AnyChar,
      Group ''date'' (seqs
        [Exactly 4 Digit, One (OneOf ''-/''), Exactly 2 Digit, One (OneOf ''-/''),
         Exactly 2 Digit, Star AnyChar,
         Exactly 2 Digit, Lit '':'', Exactly 2 Digit, Lit '':'', Exactly 2 Digit])]"

definition pat_alt_header :: regex where
  "pat_alt_header = seqs
     [Group ''date'' (seqs
        [Exactly 4 Digit, One (OneOf ''./-''), Exactly 2 Digit, One (OneOf ''./-''),
         Exactly 2 Digit]),
      LazyStar AnyChar, Lit ''-'', Star Space, Group ''game'' holdem, Star AnyChar,
      Group ''sb'' number, One (NoneOf ''0123456789''), Group ''bb'' number]"

definition pat_table_btn :: regex where
  "pat_table_btn = seqs
     [Lit ''Table'', Plus Space, Maybe (OneOf [CHR 0x27]),
      Group ''table'' (Plus (NoneOf [CHR 0x27])), Maybe (OneOf [CHR 0x27]),
      Star AnyChar, Lit ''Seat'', Plus Space, Lit ''#'', Group ''button'' (Plus Digit)]"

definition pat_seat :: regex where
  "pat_seat = seqs
     [Lit ''Seat'', Plus Space, Group ''num'' (Plus Digit), Lit '':'', Plus Space,
      Group ''name'' (LazyPlus AnyChar), Plus Space, Lit ''('',
      Group ''cur'' cur_sign, Group ''stack'' number, Lit '')'']"

definition pat_posts :: regex where
  "pat_posts = seqs
     [Group ''name'' (LazyPlus AnyChar), Lit '':'', Plus Space, Lit ''posts'', Plus Space,
      Group ''which'' (Alt (Lit ''small blind'') (Lit ''big blind'')), Plus Space,
      Group ''cur'' cur_sign, Group ''amt'' number]"

definition card :: regex where
  "card = Seq (One (OneOf ''23456789TJQKA'')) (One (OneOf ''cdhs''))"

definition pat_dealt :: regex where
  "pat_dealt = seqs
     [Lit ''Dealt to'', Plus Space, Group ''name'' (LazyPlus AnyChar), Plus Space, Lit ''['',
      Group ''cards'' (seqs [card, Plus Space, card]), Lit '']'']"

definition pat_street :: regex where
  "pat_street = seqs
     [Lit ''***'', Plus Space,
      Group ''street'' (alts [Lit ''HOLE CARDS'', Lit ''FLOP'', Lit ''TURN'', Lit ''RIVER'',
                             Lit ''SHOW DOWN'', Lit ''SHOWDOWN'', Lit ''SUMMARY'']),
      Plus Space, Lit ''***'',
      Opt (seqs [Plus Space, Lit ''['', Group ''board'' (Plus (NoneOf '']'')), Lit '']''])]"

definition pat_action :: regex where
  "pat_action = seqs
     [Group ''name'' (LazyPlus AnyChar), Lit '':'', Plus Space,
      Group ''verb'' (alts [Lit ''folds'', Lit ''calls'', Lit ''checks'', Lit ''bets'',
                           Lit ''raises to'', Lit ''raises'', Lit ''collected'']),
      Opt (seqs [Plus Space, Group ''cur'' cur_sign, Group ''amt'' number])]"

definition pat_show :: regex where
  "pat_show = seqs
     [Group ''name'' (LazyPlus AnyChar), Plus Space, Lit ''showed'', Plus Space, Lit ''['',
      Group ''cards'' (Plus (NoneOf '']'')), Lit '']'']"

definition pat_collected :: regex where
  "pat_collected = seqs
     [Group ''name'' (LazyPlus AnyChar), Plus Space, Lit ''collected'', Plus Space,
      Group ''cur'' cur_sign, Group ''amt'' number]"

definition pat_max_players :: regex where
  "pat_max_players = seqs
     [Lit ''-'', Star Space, Group ''max'' (One (OneOf ''0123456789'')), Lit ''max'']"

section \<open>The Pokerdom parser\<close>

definition normalize_name :: "string \<Rightarrow> string" where
  "normalize_name nm = rstrip_colon (strip nm)"

text \<open>
  \<open>parse_money\<close> is the one function of the source that raises on a token it cannot
  read. Nothing in the source calls it.
\<close>

definition pat_money :: regex where
  "pat_money = seqs
     [Group ''cur'' cur_sign, Maybe (OneOf '' ''),
      Group ''num'' (Seq (Maybe (OneOf ''-'')) number)]"

fun float_neg :: "pyfloat \<Rightarrow> pyfloat" where
  "float_neg (Finite m e) = (if m = 0 then NegZero else Finite (- m) e)"
| "float_neg NegZero = Finite 0 0"
| "float_neg PosInf = NegInf"
| "float_neg NegInf = PosInf"
| "float_neg NaN = NaN"

definition parse_money :: "string \<Rightarrow> error + string \<times> pyfloat" where
  "parse_money token =
     (case re_match pat_money (strip token) of
        None \<Rightarrow> Inl ValueError
      | Some m \<Rightarrow>
          (let cur = (if grp m ''cur'' = [] then ''$'' else grp m ''cur'');
               num = grp m ''num'';
               x = (case num of
                      [] \<Rightarrow> None
                    | c # ds \<Rightarrow> if c = CHR ''-'' then map_option float_neg (float_of_decimal ds)
                               else float_of_decimal num)
           in case x of None \<Rightarrow> Inl ValueError | Some v \<Rightarrow> Inr (cur, v)))"

text \<open>
  \<open>_try_parse_dt\<close>: the first format that \<open>datetime.strptime\<close> accepts. The library
  function is the parameter \<open>strptime\<close>, \<open>None\<close> where it raises.
\<close>

fun first_parsed :: "(string \<Rightarrow> string \<Rightarrow> datetime option) \<Rightarrow> string \<Rightarrow> string list \<Rightarrow> datetime option" where
  "first_parsed strptime s [] = None"
| "first_parsed strptime s (f # fs) =
     (case strptime s f of Some d \<Rightarrow> Some d | None \<Rightarrow> first_parsed strptime s fs)"

definition try_parse_dt :: "(string \<Rightarrow> string \<Rightarrow> datetime option) \<Rightarrow> string \<Rightarrow> datetime option" where
  "try_parse_dt strptime s =
     first_parsed strptime s
       [''%Y-%m-%d %H:%M:%S'', ''%Y/%m/%d %H:%M:%S'', ''%Y.%m.%d %H:%M:%S'',
        ''%Y-%m-%d %H:%M:%S %Z'', ''%Y/%m/%d %H:%M:%S %Z'']"

text \<open>The lines of a chunk: the blank ones dropped, the others stripped on the right.\<close>

definition chunk_lines :: "string \<Rightarrow> string list" where
  "chunk_lines hand_text = map rstrip (filter (\<lambda>l. strip l \<noteq> []) (splitlines hand_text))"

text \<open>The header of the hand, read from the first line.\<close>

definition parse_header :: "(string \<Rightarrow> string \<Rightarrow> datetime option) \<Rightarrow> hand \<Rightarrow> string \<Rightarrow> hand" where
  "parse_header strptime h ln =
     (case (case re_match pat_hand_header ln of
              Some m \<Rightarrow> Some m
            | None \<Rightarrow> re_match pat_alt_header ln) of
        None \<Rightarrow> h
      | Some m \<Rightarrow>
          (let h1 = h\<lparr>hand_id := opt_grp m ''hid'',
                      stakes := (safe_float (grp m ''sb'') (Finite 0 0),
                                 safe_float (grp m ''bb'') (Finite 0 0)),
                      date_utc := try_parse_dt strptime (grp m ''date'')\<rparr>
           in if (case opt_grp m ''game'' of Some g \<Rightarrow> g \<noteq> [] | None \<Rightarrow> False)
              then h1\<lparr>game := ''Hold'' @ [CHR 0x27] @ ''em No Limit''\<rparr>
              else h1))"

text \<open>A loop whose body may raise: the first error ends it.\<close>

fun fold_err :: "('s \<Rightarrow> 'a \<Rightarrow> error + 's) \<Rightarrow> 's \<Rightarrow> 'a list \<Rightarrow> error + 's" where
  "fold_err f s [] = Inr s"
| "fold_err f s (x # xs) = (case f s x of Inl e \<Rightarrow> Inl e | Inr s' \<Rightarrow> fold_err f s' xs)"

text \<open>Table, button and number of players, from the first eight lines.\<close>

definition scan_table :: "hand \<Rightarrow> string \<Rightarrow> error + hand" where
  "scan_table h ln =
     (case (case re_match pat_table_btn ln of
              None \<Rightarrow> Inr h
            | Some tm \<Rightarrow>
                (case py_int (grp tm ''button'') of
                   Inl e \<Rightarrow> Inl e
                 | Inr b \<Rightarrow> Inr (h\<lparr>table_name := Some (strip (grp tm ''table'')),
                                    button_seat := Some b\<rparr>))) of
        Inl e \<Rightarrow> Inl e
      | Inr h1 \<Rightarrow>
          (case re_search pat_max_players ln of
             None \<Rightarrow> Inr h1
           | Some mm \<Rightarrow>
               (case py_int (grp mm ''max'') of
                  Inl e \<Rightarrow> Inl e
                | Inr n \<Rightarrow> Inr (h1\<lparr>max_players := Some n\<rparr>))))"

definition scan_seat :: "hand \<Rightarrow> string \<Rightarrow> error + hand" where
  "scan_seat h ln =
     (case re_match pat_seat ln of
        None \<Rightarrow> Inr h
      | Some sm \<Rightarrow>
          (case py_int (grp sm ''num'') of
             Inl e \<Rightarrow> Inl e
           | Inr n \<Rightarrow>
               Inr (h\<lparr>seats := seats h @
                        [\<lparr>num = n, name = normalize_name (grp sm ''name''),
                          stack = Some (safe_float (grp sm ''stack'') (Finite 0 0))\<rparr>]\<rparr>)))"

definition scan_posts :: "hand \<Rightarrow> string \<Rightarrow> hand" where
  "scan_posts h ln =
     (case re_match pat_posts ln of
        None \<Rightarrow> h
      | Some pm \<Rightarrow>
          (let which = map lower_char (grp pm ''which'');
               nm = normalize_name (grp pm ''name'');
               h1 = h\<lparr>currency := (if grp pm ''cur'' = [] then currency h else grp pm ''cur'')\<rparr>;
               amt = safe_float (grp pm ''amt'') (Finite 0 0)
           in if contains ''small'' which
              then h1\<lparr>blinds := (blinds h1)(''SB'' \<mapsto> (nm, amt))\<rparr>
              else h1\<lparr>blinds := (blinds h1)(''BB'' \<mapsto> (nm, amt))\<rparr>))"

definition scan_dealt :: "hand \<Rightarrow> string \<Rightarrow> hand" where
  "scan_dealt h ln =
     (case re_match pat_dealt ln of
        None \<Rightarrow> h
      | Some dm \<Rightarrow> h\<lparr>hero := Some (normalize_name (grp dm ''name'')),
                      hero_hole := Some (strip (grp dm ''cards''))\<rparr>)"

text \<open>Streets and actions: one pass over the lines with the current street.\<close>

definition street_of_tag :: "string \<Rightarrow> string" where
  "street_of_tag tag =
     (if contains ''FLOP'' tag then ''FLOP''
      else if contains ''TURN'' tag then ''TURN''
      else if contains ''RIVER'' tag then ''RIVER''
      else if contains ''SHOW'' tag then ''SHOWDOWN''
      else if contains ''SUMMARY'' tag then ''SUMMARY''
      else ''PREFLOP'')"

definition scan_line :: "string \<times> hand \<Rightarrow> string \<Rightarrow> string \<times> hand" where
  "scan_line sh ln =
     (let cur_street = fst sh; h = snd sh
      in case re_match pat_street ln of
           Some st \<Rightarrow>
             (let new_street = street_of_tag (map upper_char (grp st ''street''))
              in (new_street,
                  (case opt_grp st ''board'' of
                     Some b \<Rightarrow>
                       if b \<noteq> []
                       then h\<lparr>board := (board h)(new_street \<mapsto> ''['' @ strip b @ '']'')\<rparr>
                       else h
                   | None \<Rightarrow> h)))
         | None \<Rightarrow>
             (case re_match pat_action ln of
                Some am \<Rightarrow>
                  (let nm = normalize_name (grp am ''name'');
                       vb = map lower_char (grp am ''verb'');
                       amt = (case opt_grp am ''amt'' of
                                Some a \<Rightarrow> if a \<noteq> [] then Some (safe_float a (Finite 0 0))
                                          else None
                              | None \<Rightarrow> None);
                       vb' = (if contains ''raises to'' vb then ''raises'' else vb)
                   in (cur_street,
                       h\<lparr>actions := actions h @ [Action cur_street nm vb' amt None ln]\<rparr>))
              | None \<Rightarrow>
                  (case re_match pat_collected ln of
                     Some cm \<Rightarrow>
                       (let nm = normalize_name (grp cm ''name'');
                            amt = safe_float (grp cm ''amt'') (Finite 0 0)
                        in (cur_street,
                            h\<lparr>actions := actions h @
                                [Action ''SUMMARY'' nm ''collected'' (Some amt) None ln]\<rparr>))
                   | None \<Rightarrow>
                       (case re_match pat_show ln of
                          Some sm \<Rightarrow>
                            (let nm = normalize_name (grp sm ''name'');
                                 cds = grp sm ''cards''
                             in (cur_street,
                                 h\<lparr>actions := actions h @
                                     [Action ''SHOWDOWN'' nm ''showed'' None (Some cds) ln]\<rparr>))
                        | None \<Rightarrow> (cur_street, h)))))"

text \<open>\<open>_parse_one\<close>: \<open>None\<close> for a chunk without a line, an error where \<open>int\<close> raises.\<close>

definition parse_one :: "(string \<Rightarrow> string \<Rightarrow> datetime option) \<Rightarrow> string \<Rightarrow> error + hand option" where
  "parse_one strptime hand_text =
     (let lines = chunk_lines hand_text
      in case lines of
           [] \<Rightarrow> Inr None
         | first_line # _ \<Rightarrow>
             (case fold_err scan_table (parse_header strptime Hand first_line) (take 8 lines) of
                Inl e \<Rightarrow> Inl e
              | Inr h1 \<Rightarrow>
                  (case fold_err scan_seat h1 lines of
                     Inl e \<Rightarrow> Inl e
                   | Inr h2 \<Rightarrow>
                       Inr (Some (snd (foldl scan_line
                                         (''PREFLOP'',
                                          foldl scan_dealt (foldl scan_posts h2 lines) lines)
                                         lines))))))"

text \<open>
  The first loop of \<open>parse\<close> cuts the text into chunks: a blank line ends the chunk read
  so far when that chunk has a line with the marker of the hole cards.
\<close>

fun segment_loop :: "string list \<Rightarrow> string list \<Rightarrow> string list \<Rightarrow> string list" where
  "segment_loop chunks buf [] =
     (if buf \<noteq> [] then chunks @ [strip (join [CHR 0x0A] buf)] else chunks)"
| "segment_loop chunks buf (ln # lns) =
     (if strip ln = [] \<and> buf \<noteq> [] \<and> list_ex (contains ''*** HOLE CARDS ***'') buf
      then segment_loop (chunks @ [strip (join [CHR 0x0A] buf)]) [] lns
      else segment_loop chunks (buf @ [ln]) lns)"

definition segment :: "string \<Rightarrow> string list" where
  "segment text = segment_loop [] [] (splitlines text)"

text \<open>The second loop parses the chunks in order; an error of one chunk ends the call.\<close>

fun parse_chunks :: "(string \<Rightarrow> string \<Rightarrow> datetime option) \<Rightarrow> string list \<Rightarrow> error + hand list" where
  "parse_chunks strptime [] = Inr []"
| "parse_chunks strptime (c # cs) =
     (case parse_one strptime c of
        Inl e \<Rightarrow> Inl e
      | Inr r \<Rightarrow>
          (case parse_chunks strptime cs of
             Inl e \<Rightarrow> Inl e
           | Inr hs \<Rightarrow> Inr ((case r of None \<Rightarrow> [] | Some h \<Rightarrow> [h]) @ hs)))"

definition parse :: "(string \<Rightarrow> string \<Rightarrow> datetime option) \<Rightarrow> string \<Rightarrow> error + hand list" where
  "parse strptime text = parse_chunks strptime (segment text)"

text \<open>\<open>convert_file\<close> on the text of the file: the hands, each written.\<close>

fun write_all :: "hand list \<Rightarrow> error + string list" where
  "write_all [] = Inr []"
| "write_all (h # hs) =
     (case write_hand h of
        Inl e \<Rightarrow> Inl e
      | Inr t \<Rightarrow> (case write_all hs of Inl e \<Rightarrow> Inl e | Inr ts \<Rightarrow> Inr (t # ts)))"

definition convert_text :: "(string \<Rightarrow> string \<Rightarrow> datetime option) \<Rightarrow> string \<Rightarrow> error + string list" where
  "convert_text strptime txt =
     (case parse strptime txt of Inl e \<Rightarrow> Inl e | Inr hands \<Rightarrow> write_all hands)"

section \<open>Example inputs\<close>

text \<open>
  A \<open>strptime\<close> that accepts nothing. The example chunks below have no header line, so
  the parser does not call \<open>strptime\<close> on them; the one that has a header has a date
  without a time of day, which none of the formats of \<open>_try_parse_dt\<close> accepts.
\<close>

definition strptime_none :: "string \<Rightarrow> string \<Rightarrow> datetime option" where
  "strptime_none s f = None"

text \<open>The lines of a text, each ended by a line feed.\<close>

definition unlines :: "string list \<Rightarrow> string" where
  "unlines ls = concat (map (\<lambda>l. l @ [CHR 0x0A]) ls)"

definition collected_no_amount_hand :: hand where
  "collected_no_amount_hand =
     Hand\<lparr>actions := [Action ''PREFLOP'' ''Bob'' ''collected'' None None ''Bob: collected'']\<rparr>"

definition stakes_example_hand :: hand where
  "stakes_example_hand =
     Hand\<lparr>hand_id := Some ''123'', stakes := (Finite 1 (- 1), Finite 1 0),
          date_utc := Some \<lparr>year = 2024, month = 1, day = 2, hour = 3, minute = 4, second = 5\<rparr>\<rparr>"

definition showed_example_hand :: hand where
  "showed_example_hand =
     Hand\<lparr>actions := [Action ''SHOWDOWN'' ''Bob'' ''showed'' None (Some ''Ah Kh'')
                         ''Bob showed [Ah Kh]'']\<rparr>"

definition showdown_fold_text :: string where
  "showdown_fold_text = unlines [''*** SHOW DOWN ***'', ''Bob: folds'']"

text \<open>The first two lines that \<open>write\<close> gives for a hand with the default fields.\<close>

definition default_header :: string where
  "default_header = ''PokerStars Hand #0000000000: Hold'' @ [CHR 0x27] @ ''em No Limit  -''"

definition default_table_line :: string where
  "default_table_line = ''Table '' @ [CHR 0x27] @ ''Pokerdom Table'' @ [CHR 0x27] @ ''  Seat #1''"

section \<open>Notions used in the statements\<close>

text \<open>A float that is a number: not an infinity and not not-a-number.\<close>

definition is_finite :: "pyfloat \<Rightarrow> bool" where
  "is_finite x = (case x of Finite m e \<Rightarrow> True | NegZero \<Rightarrow> True | _ \<Rightarrow> False)"

text \<open>
  A decimal numeral with exactly two digits after the point: an optional minus sign, one
  digit or more, the point, two digits.
\<close>

definition two_decimals :: "string \<Rightarrow> bool" where
  "two_decimals s =
     (case rev s of
        d2 # d1 # dot # ip \<Rightarrow>
          is_digit d2 \<and> is_digit d1 \<and> dot = CHR ''.'' \<and>
          (case rev ip of
             [] \<Rightarrow> False
           | c # ds \<Rightarrow> if c = CHR ''-'' then ds \<noteq> [] \<and> list_all is_digit ds
                       else list_all is_digit (c # ds))
      | _ \<Rightarrow> False)"

text \<open>
  The lines of the showdown section under its header: one for every action of the
  street \<open>SHOWDOWN\<close> whose verb is \<open>showed\<close> and whose cards are there, in the order of
  the actions.
\<close>

definition showdown_lines :: "hand \<Rightarrow> string list" where
  "showdown_lines h =
     map (\<lambda>a. actor a @ '': shows ['' @ the (cards a) @ '']'')
       (filter (\<lambda>a. street a = ''SHOWDOWN'' \<and> verb a = ''showed'' \<and>
                     cards a \<noteq> None \<and> cards a \<noteq> Some []) (actions h))"

text \<open>
  A well-formed hand block: lines that are not blank and have no line break in them, one
  of them with the marker of the hole cards. \<open>blocks_text\<close> is the text of such blocks,
  every line ended by a line feed and every block by an empty line; \<open>chunk_of\<close> is the
  chunk that the lines of a block make.
\<close>

definition plain_line :: "string \<Rightarrow> bool" where
  "plain_line l = (strip l \<noteq> [] \<and> \<not> list_ex is_linebreak l)"

definition well_formed_block :: "string list \<Rightarrow> bool" where
  "well_formed_block b =
     (list_all plain_line b \<and> list_ex (contains ''*** HOLE CARDS ***'') b)"

definition blocks_text :: "string list list \<Rightarrow> string" where
  "blocks_text bs = concat (map (\<lambda>b. unlines b @ [CHR 0x0A]) bs)"

definition chunk_of :: "string list \<Rightarrow> string" where
  "chunk_of b = strip (join [CHR 0x0A] b)"

definition segment_example_blocks :: "string list list" where
  "segment_example_blocks =
     [[''Game 1'', ''*** HOLE CARDS ***'', ''Bob: folds''], [''Game 2'', ''*** HOLE CARDS ***'']]"

definition segment_example_tail :: "string list" where
  "segment_example_tail = [''Game 3'', ''*** HOLE CARDS ***'', ''Al: checks'']"

text \<open>The hand of a result that has one.\<close>

definition the_hand :: "error + hand option \<Rightarrow> hand" where
  "the_hand r = (case r of Inr (Some h) \<Rightarrow> h | _ \<Rightarrow> Hand)"

definition has_hand :: "error + hand option \<Rightarrow> bool" where
  "has_hand r = (case r of Inr (Some h) \<Rightarrow> True | _ \<Rightarrow> False)"

definition alt_header_text :: string where
  "alt_header_text = unlines [''2024.01.01 - Holdem Pot Limit 1/2'', ''Bob: folds'']"

definition two_dealt_text :: string where
  "two_dealt_text = unlines [''Dealt to Hero [Ah Kh]'', ''Dealt to Villain [2c 3d]'']"

definition marker_board_text :: string where
  "marker_board_text = unlines [''*** HOLE CARDS *** [Ah Kh]'', ''*** SUMMARY *** [Ah Kd 2c]'']"

text \<open>
  The action that the street loop appends for a line that reaches its last two patterns:
  the one of the collected pattern when it matches, otherwise the one of the show
  pattern. A line reaches them when the patterns of the street marker and of the action
  do not match it (\<open>unclaimed\<close>). \<open>settled\<close> says that every action of such a line is that
  action.
\<close>

definition collected_action :: "captures \<Rightarrow> string \<Rightarrow> action" where
  "collected_action cm ln =
     Action ''SUMMARY'' (normalize_name (grp cm ''name'')) ''collected''
       (Some (safe_float (grp cm ''amt'') (Finite 0 0))) None ln"

definition showed_action :: "captures \<Rightarrow> string \<Rightarrow> action" where
  "showed_action sm ln =
     Action ''SHOWDOWN'' (normalize_name (grp sm ''name'')) ''showed'' None
       (Some (grp sm ''cards'')) ln"

definition summary_or_showdown :: "string \<Rightarrow> action option" where
  "summary_or_showdown ln =
     (case re_match pat_collected ln of
        Some cm \<Rightarrow> Some (collected_action cm ln)
      | None \<Rightarrow>
          (case re_match pat_show ln of
             Some sm \<Rightarrow> Some (showed_action sm ln)
           | None \<Rightarrow> None))"

definition unclaimed :: "string \<Rightarrow> bool" where
  "unclaimed ln = (re_match pat_street ln = None \<and> re_match pat_action ln = None)"

definition flop_collected_text :: string where
  "flop_collected_text = unlines [''*** FLOP *** [Ah Kd 2c]'', ''Bob: collected 5'']"

definition summary_showdown_text :: string where
  "summary_showdown_text = unlines [''Al collected $5 from pot'', ''Bob showed [Ah Kh]'']"

definition settled :: "hand \<Rightarrow> bool" where
  "settled h = list_all (\<lambda>a. unclaimed (raw a) \<longrightarrow> summary_or_showdown (raw a) = Some a) (actions h)"

text \<open>
  The amount of an action line: \<open>safe_float(am.group("amt")) if am.group("amt") else None\<close>.
\<close>

definition action_amount :: "captures \<Rightarrow> pyfloat option" where
  "action_amount am =
     (case opt_grp am ''amt'' of
        Some s \<Rightarrow> if s \<noteq> [] then Some (safe_float s (Finite 0 0)) else None
      | None \<Rightarrow> None)"

definition raise_text :: string where
  "raise_text = unlines [''Bob: raises to $12.5'', ''Al: raises 12.5'']"

definition raise_no_amount_text :: string where
  "raise_no_amount_text = unlines [''Bob: raises'']"









text \<open>
  Lines written out in full. A name as it stands before the colon of a line: not empty,
  without a colon and without a line feed; \<open>player_name\<close> also excludes the asterisk
  that opens a street marker. \<open>no_amount\<close>: the text where an amount is expected is
  empty, or begins with a character that is no white space and no digit, and is no
  currency sign followed by a digit.
\<close>

definition name_text :: "string \<Rightarrow> bool" where
  "name_text nm = (nm \<noteq> [] \<and> list_all (\<lambda>c. c \<noteq> CHR '':'' \<and> c \<noteq> CHR 0x0A) nm)"

definition player_name :: "string \<Rightarrow> bool" where
  "player_name nm = (name_text nm \<and> hd nm \<noteq> CHR ''*'')"


text \<open>
  The verb of an action line, \<open>raises to\<close> made \<open>raises\<close>, and the street that is current
  after the lines \<open>pre\<close> of a chunk have been read.
\<close>

definition action_verb :: "captures \<Rightarrow> string" where
  "action_verb am =
     (let vb = map lower_char (grp am ''verb'')
      in if contains ''raises to'' vb then ''raises'' else vb)"

definition street_after :: "string list \<Rightarrow> string" where
  "street_after pre = fst (foldl scan_line (''PREFLOP'', Hand) pre)"

definition flop_collected_plain_text :: string where
  "flop_collected_plain_text = unlines [''*** FLOP *** [Ah Kd 2c]'', ''Bob: collected'']"

section \<open>Facts about the text primitives and the numbers\<close>

lemma digit_char_is_digit: "is_digit (digit_char n)"
proof -
  have "nat (n mod 10) < 10" by simp
  then have "nat (n mod 10) \<in> {0,1,2,3,4,5,6,7,8,9}" by (auto simp: less_Suc_eq numeral_eq_Suc)
  then show ?thesis
    unfolding digit_char_def is_digit_def by auto
qed

lemma show_nat_digits: "show_nat n \<noteq> [] \<and> list_all is_digit (show_nat n)"
proof (induction n rule: show_nat.induct)
  case (1 n)
  show ?case
  proof (cases "n < 10")
    case True
    then show ?thesis by (subst show_nat.simps, subst (2) show_nat.simps) (simp add: digit_char_is_digit)
  next
    case False
    with 1 show ?thesis by (subst show_nat.simps, subst (2) show_nat.simps) (simp add: digit_char_is_digit)
  qed
qed

lemma two_decimals_fmt_cents: "two_decimals (fmt_cents c)"
proof -
  obtain x xs where sx: "show_nat (c div 100) = x # xs"
    using show_nat_digits [of "c div 100"] by (cases "show_nat (c div 100)") auto
  have dg: "list_all is_digit (x # xs)" using show_nat_digits [of "c div 100"] sx by simp
  have nm: "x \<noteq> CHR ''-''" using dg by (auto simp: is_digit_def)
  show ?thesis
    using dg nm
    by (simp add: two_decimals_def fmt_cents_def two_digits_def sx digit_char_is_digit)
qed

lemma two_decimals_minus: "two_decimals (fmt_cents c) \<Longrightarrow> two_decimals (CHR ''-'' # fmt_cents c)"
proof -
  obtain x xs where sx: "show_nat (c div 100) = x # xs"
    using show_nat_digits [of "c div 100"] by (cases "show_nat (c div 100)") auto
  have dg: "list_all is_digit (x # xs)" using show_nat_digits [of "c div 100"] sx by simp
  show ?thesis
    using dg
    by (simp add: two_decimals_def fmt_cents_def two_digits_def sx digit_char_is_digit)
qed

lemma fmt2_two_decimals: "is_finite x \<Longrightarrow> two_decimals (fmt2 x)"
proof (cases x)
  case (Finite m e)
  then show ?thesis
    using two_decimals_fmt_cents two_decimals_minus [OF two_decimals_fmt_cents] by simp
next
  case NegZero
  then show ?thesis by (simp add: two_decimals_def is_digit_def)
qed (simp_all add: is_finite_def)


lemma strip_no_space_ends:
  assumes "s \<noteq> []" "\<not> is_space (hd s)" "\<not> is_space (last s)"
  shows "strip s = s"
proof -
  have l: "lstrip s = s" using assms by (cases s) (simp_all add: lstrip_def)
  have "dropWhile is_space (rev s) = rev s"
    using assms by (cases "rev s") (simp_all add: last_rev hd_rev)
  then show ?thesis by (simp add: strip_def rstrip_def l)
qed

lemma strip_one_trailing_space:
  assumes "s \<noteq> []" "\<not> is_space (hd s)" "\<not> is_space (last s)"
  shows "strip (s @ '' '') = s"
proof -
  have l: "lstrip (s @ '' '') = s @ '' ''" using assms by (cases s) (simp_all add: lstrip_def)
  have sp: "is_space CHR '' ''" by (simp add: is_space_def)
  have "dropWhile is_space (rev s) = rev s"
    using assms by (cases "rev s") (simp_all add: last_rev hd_rev)
  then show ?thesis by (simp add: strip_def rstrip_def l sp)
qed

lemma strftime_ET_last: "strftime_ET d \<noteq> [] \<and> last (strftime_ET d) = CHR ''T''"
  by (simp add: strftime_ET_def)

lemma fmt2_last: "fmt2 x \<noteq> [] \<and> last (fmt2 x) \<noteq> CHR ''*''"
proof (cases x)
  case (Finite m e)
  have "digit_char n \<noteq> CHR ''*''" for n
    using digit_char_is_digit [of n] by (auto simp: is_digit_def)
  then show ?thesis using Finite by (simp add: fmt_cents_def two_digits_def)
qed simp_all

section \<open>The writer: the header line\<close>

lemma header_line_eq:
  "header_line h =
     ''PokerStars Hand #'' @ str_or (hand_id h) ''0000000000'' @ '': '' @ game h @ '' '' @
     (if truthy_float (snd (stakes h))
      then ''('' @ write_cur h @ fmt2 (fst (stakes h)) @ ''/'' @ write_cur h @
           fmt2 (snd (stakes h)) @ '')''
      else []) @
     '' -'' @ (case date_utc h of None \<Rightarrow> [] | Some d \<Rightarrow> '' '' @ strftime_ET d)"
proof -
  define body where "body = ''PokerStars Hand #'' @ str_or (hand_id h) ''0000000000'' @ '': '' @
     game h @ '' '' @ stakes_text h @ '' -''"
  have b1: "body \<noteq> []" "\<not> is_space (hd body)" "\<not> is_space (last body)"
    by (simp_all add: body_def is_space_def)
  have st: "stakes_text h = (if truthy_float (snd (stakes h))
      then ''('' @ write_cur h @ fmt2 (fst (stakes h)) @ ''/'' @ write_cur h @
           fmt2 (snd (stakes h)) @ '')'' else [])"
    by (simp add: stakes_text_def Let_def)
  show ?thesis
  proof (cases "date_utc h")
    case None
    have "header_line h = strip (body @ '' '')"
      by (simp add: header_line_def Let_def None body_def)
    then show ?thesis using strip_one_trailing_space [OF b1] None st by (simp add: body_def)
  next
    case (Some d)
    define full where "full = body @ '' '' @ strftime_ET d"
    have f1: "full \<noteq> []" "\<not> is_space (hd full)" "\<not> is_space (last full)"
      using b1 strftime_ET_last [of d] by (simp_all add: full_def is_space_def)
    have "header_line h = strip full"
      by (simp add: header_line_def Let_def Some body_def full_def)
    then show ?thesis using strip_no_space_ends [OF f1] Some st by (simp add: body_def full_def)
  qed
qed


text \<open>
  C8. The claim: for every record the header line holds the stakes \<open>(<cur><sb>/<cur><bb>)\<close>
  with both amounts in two decimals, next to the site label, the hand id or its
  placeholder, the game label and the timestamp or nothing. \<open>write\<close> leaves the stakes out
  when the big blind is zero (\<open>if bb else ""\<close>): the record with the default fields, which
  the parser gives for every chunk whose first line is no header, has the header line
  \<open>PokerStars Hand #0000000000: Hold'em No Limit  -\<close>, without stakes.
\<close>

theorem header_without_stakes:
  "stakes Hand = (Finite 0 0, Finite 0 0) \<and>
   header_line Hand = default_header \<and>
   \<not> contains ''('' (header_line Hand)"
  by code_simp

text \<open>
  C8 as the code has it: the header line is \<open>PokerStars Hand #\<close>, the hand id (ten zeros
  when there is none), the game label, the stakes when the big blind is not zero and
  nothing otherwise, a dash, and the timestamp when there is one. The strip takes
  nothing but the space after the dash when there is no timestamp. An amount that is a
  number is printed with two decimals.
\<close>

theorem header_line_stakes:
  "header_line h =
     ''PokerStars Hand #'' @ str_or (hand_id h) ''0000000000'' @ '': '' @ game h @ '' '' @
     (if truthy_float (snd (stakes h))
      then ''('' @ write_cur h @ fmt2 (fst (stakes h)) @ ''/'' @ write_cur h @
           fmt2 (snd (stakes h)) @ '')''
      else []) @
     '' -'' @ (case date_utc h of None \<Rightarrow> [] | Some d \<Rightarrow> '' '' @ strftime_ET d) \<and>
   (is_finite (fst (stakes h)) \<longrightarrow> two_decimals (fmt2 (fst (stakes h)))) \<and>
   (is_finite (snd (stakes h)) \<longrightarrow> two_decimals (fmt2 (snd (stakes h))))"
  using header_line_eq [of h] fmt2_two_decimals by blast

theorem header_line_stakes_witness:
  "is_finite (fst (stakes stakes_example_hand)) \<and>
   is_finite (snd (stakes stakes_example_hand)) \<and>
   two_decimals (fmt2 (fst (stakes stakes_example_hand))) \<and>
   two_decimals (fmt2 (snd (stakes stakes_example_hand))) \<and>
   fmt2 (fst (stakes stakes_example_hand)) = ''0.50'' \<and>
   fmt2 (snd (stakes stakes_example_hand)) = ''1.00'' \<and>
   header_line stakes_example_hand =
     ''PokerStars Hand #123: Hold'' @ [CHR 0x27] @
     ''em No Limit ($0.50/$1.00) - 2024/01/02 03:04:05 ET''"
proof -
  have f: "is_finite (fst (stakes stakes_example_hand))"
          "is_finite (snd (stakes stakes_example_hand))"
    by code_simp+
  have v: "fmt2 (fst (stakes stakes_example_hand)) = ''0.50''"
          "fmt2 (snd (stakes stakes_example_hand)) = ''1.00''"
    by code_simp+
  have d: "str_or (hand_id stakes_example_hand) ''0000000000'' = ''123''"
          "game stakes_example_hand = ''Hold'' @ [CHR 0x27] @ ''em No Limit''"
          "truthy_float (snd (stakes stakes_example_hand))"
          "write_cur stakes_example_hand = ''$''"
          "date_utc stakes_example_hand =
             Some \<lparr>year = 2024, month = 1, day = 2, hour = 3, minute = 4, second = 5\<rparr>"
          "strftime_ET \<lparr>year = 2024, month = 1, day = 2, hour = 3, minute = 4, second = 5\<rparr> =
             ''2024/01/02 03:04:05 ET''"
    by code_simp+
  show ?thesis
    using header_line_stakes [of stakes_example_hand] f
    by (simp add: v d)
qed

section \<open>The writer: the showdown section\<close>

lemma format_action_not_header:
  assumes "format_action a cur = Some l"
  shows "l \<noteq> ''*** SHOW DOWN ***''"
proof
  assume eq: "l = ''*** SHOW DOWN ***''"
  have l: "last l = CHR ''*''" "hd l = CHR ''*''" by (simp_all add: eq)
  from assms l show False
    using fmt2_last
    by (auto simp: format_action_def split: if_splits option.splits)
qed

lemma in_set_map_filter:
  "y \<in> set (List.map_filter f xs) \<longleftrightarrow> (\<exists>x \<in> set xs. f x = Some y)"
  by (induction xs) (auto simp: map_filter_simps split: option.splits)

lemma dump_street_not_header:
  assumes "label \<noteq> []" "hd label \<noteq> CHR ''S''"
  shows "''*** SHOW DOWN ***'' \<notin> set (dump_street h tag label)"
proof -
  have a: "''*** SHOW DOWN ***'' \<notin> set (List.map_filter (\<lambda>a. format_action a c) xs)" for c xs
    using format_action_not_header by (auto simp: in_set_map_filter)
  obtain c cs where lab: "label = c # cs" "c \<noteq> CHR ''S''"
    using assms by (cases label) auto
  show ?thesis
    using a lab
    by (auto simp: dump_street_def Let_def split: option.splits)
qed


lemma ends_fmt2_not_header: "p @ fmt2 x \<noteq> ''*** SHOW DOWN ***''"
proof
  assume "p @ fmt2 x = ''*** SHOW DOWN ***''"
  then have "last (p @ fmt2 x) = CHR ''*''" by simp
  then show False using fmt2_last [of x] by simp
qed

lemma collected_lines_not_header:
  "collected_lines cur as = Inr ls \<Longrightarrow> ''*** SHOW DOWN ***'' \<notin> set ls"
proof (induction as arbitrary: ls)
  case Nil
  then show ?case by simp
next
  case (Cons a as)
  from Cons.prems obtain x ls' where x: "amount a = Some x"
    and r: "collected_lines cur as = Inr ls'"
    and ls: "ls = (actor a @ '' collected '' @ cur @ fmt2 x) # ls'"
    by (auto split: option.splits sum.splits)
  have "(actor a @ '' collected '' @ cur) @ fmt2 x \<noteq> ''*** SHOW DOWN ***''"
    by (rule ends_fmt2_not_header)
  then have "actor a @ '' collected '' @ cur @ fmt2 x \<noteq> ''*** SHOW DOWN ***''"
    by simp
  then show ?case using Cons.IH [OF r] ls by (simp del: append.simps)
qed

lemma summary_section_not_header:
  "summary_section h = Inr ls \<Longrightarrow> ''*** SHOW DOWN ***'' \<notin> set ls"
  using collected_lines_not_header
  by (auto simp: summary_section_def Let_def split: if_splits sum.splits)

lemma fixed_lines_not_header:
  "header_line h \<noteq> ''*** SHOW DOWN ***''"
  "table_line h \<noteq> ''*** SHOW DOWN ***''"
  "seat_line cur s \<noteq> ''*** SHOW DOWN ***''"
  "''*** SHOW DOWN ***'' \<notin> set (blind_lines h)"
  "''*** SHOW DOWN ***'' \<notin> set (dealt_lines h)"
proof -
  show "header_line h \<noteq> ''*** SHOW DOWN ***''"
    by (subst header_line_eq) simp
  show "table_line h \<noteq> ''*** SHOW DOWN ***''"
    by (simp add: table_line_def Let_def)
  show "seat_line cur s \<noteq> ''*** SHOW DOWN ***''"
    by (simp add: seat_line_def Let_def)
  show "''*** SHOW DOWN ***'' \<notin> set (blind_lines h)"
    using fmt2_last by (auto simp: blind_lines_def Let_def split: option.splits)
  show "''*** SHOW DOWN ***'' \<notin> set (dealt_lines h)"
    by (auto simp: dealt_lines_def split: option.splits)
qed

lemma showdown_map_filter:
  "List.map_filter
     (\<lambda>a. case cards a of
             Some c \<Rightarrow> if verb a = ''showed'' \<and> c \<noteq> []
                       then Some (actor a @ '': shows ['' @ c @ '']'') else None
           | None \<Rightarrow> None) (filter (\<lambda>a. street a = ''SHOWDOWN'') xs) =
   map (\<lambda>a. actor a @ '': shows ['' @ the (cards a) @ '']'')
     (filter (\<lambda>a. street a = ''SHOWDOWN'' \<and> verb a = ''showed'' \<and>
                   cards a \<noteq> None \<and> cards a \<noteq> Some []) xs)"
  by (induction xs) (auto simp: map_filter_simps split: option.splits)

lemma showdown_section_eq:
  "showdown_section h =
     (if \<exists>a \<in> set (actions h). street a = ''SHOWDOWN''
      then ''*** SHOW DOWN ***'' # showdown_lines h else [])"
  by (auto simp: showdown_section_def showdown_lines_def Let_def showdown_map_filter
        filter_empty_conv)

text \<open>
  C7. The claim: the output has the header of the showdown section if and only if the
  record has an action whose verb is \<open>showed\<close>, and the section lists the actor and the
  cards of every such action. \<open>write\<close> selects by the street, not by the verb: the text
  below gives a record whose one action is a fold on the street \<open>SHOWDOWN\<close>, and the
  output has the header with no \<open>showed\<close> action in the record.
\<close>

theorem showdown_header_without_showed:
  "map_sum id (map (\<lambda>h. map verb (actions h))) (parse strptime_none showdown_fold_text) =
     Inr [[''folds'']] \<and>
   convert_text strptime_none showdown_fold_text =
     Inr [unlines [default_header, default_table_line, ''*** HOLE CARDS ***'',
                   ''*** SHOW DOWN ***'']]"
  by code_simp

text \<open>
  C7 as the code has it: the lines of the output have the header \<open>*** SHOW DOWN ***\<close> if
  and only if the record has an action of the street \<open>SHOWDOWN\<close>; the section is a part of
  the output, and under its header it lists the actor and the cards of every action of
  that street whose verb is \<open>showed\<close> and whose cards are not empty.
\<close>

theorem showdown_header_iff_showdown_street:
  assumes "write_lines h = Inr out"
  shows "(''*** SHOW DOWN ***'' \<in> set out) = (\<exists>a \<in> set (actions h). street a = ''SHOWDOWN'') \<and>
         (\<exists>pre post. out = pre @ showdown_section h @ post) \<and>
         showdown_section h =
           (if \<exists>a \<in> set (actions h). street a = ''SHOWDOWN''
            then ''*** SHOW DOWN ***'' # showdown_lines h else [])"
proof -
  from assms obtain ls where ls: "summary_section h = Inr ls"
    and out: "out = [header_line h, table_line h] @
                map (seat_line (write_cur h)) (sort_key num (seats h)) @
                blind_lines h @
                [''*** HOLE CARDS ***''] @ dealt_lines h @
                dump_street h ''PREFLOP'' ''HOLE CARDS'' @
                dump_street h ''FLOP'' ''FLOP'' @
                dump_street h ''TURN'' ''TURN'' @
                dump_street h ''RIVER'' ''RIVER'' @
                showdown_section h @ ls"
    by (auto simp: write_lines_def Let_def split: sum.splits)
  have d: "''*** SHOW DOWN ***'' \<notin> set (dump_street h ''PREFLOP'' ''HOLE CARDS'')"
          "''*** SHOW DOWN ***'' \<notin> set (dump_street h ''FLOP'' ''FLOP'')"
          "''*** SHOW DOWN ***'' \<notin> set (dump_street h ''TURN'' ''TURN'')"
          "''*** SHOW DOWN ***'' \<notin> set (dump_street h ''RIVER'' ''RIVER'')"
    by (rule dump_street_not_header; simp)+
  have s: "''*** SHOW DOWN ***'' \<notin> set ls"
    using ls by (rule summary_section_not_header)
  have seatl: "''*** SHOW DOWN ***'' \<notin> set (map (seat_line (write_cur h)) (sort_key num (seats h)))"
    by (auto simp: fixed_lines_not_header(3) [symmetric] simp del: set_sort)
  have iff: "(''*** SHOW DOWN ***'' \<in> set out) = (''*** SHOW DOWN ***'' \<in> set (showdown_section h))"
    unfolding out using d s seatl fixed_lines_not_header(1,2,4,5) [of h]
    by (simp del: set_sort)
  have "(''*** SHOW DOWN ***'' \<in> set (showdown_section h)) =
        (\<exists>a \<in> set (actions h). street a = ''SHOWDOWN'')"
    by (simp add: showdown_section_eq)
  moreover have "\<exists>pre post. out = pre @ showdown_section h @ post"
    unfolding out by (metis append.assoc append_Cons append_Nil)
  ultimately show ?thesis using iff showdown_section_eq by blast
qed

theorem showdown_header_iff_showdown_street_witness:
  "write_lines showed_example_hand =
     Inr [default_header, default_table_line, ''*** HOLE CARDS ***'', ''*** SHOW DOWN ***'',
          ''Bob: shows [Ah Kh]''] \<and>
   ''*** SHOW DOWN ***'' \<in> set [default_header, default_table_line, ''*** HOLE CARDS ***'',
          ''*** SHOW DOWN ***'', ''Bob: shows [Ah Kh]''] \<and>
   map street (actions showed_example_hand) = [''SHOWDOWN''] \<and>
   showdown_section showed_example_hand = [''*** SHOW DOWN ***'', ''Bob: shows [Ah Kh]'']"
proof -
  have w: "write_lines showed_example_hand =
     Inr [default_header, default_table_line, ''*** HOLE CARDS ***'', ''*** SHOW DOWN ***'',
          ''Bob: shows [Ah Kh]'']"
    by code_simp
  have a: "actions showed_example_hand =
             [Action ''SHOWDOWN'' ''Bob'' ''showed'' None (Some ''Ah Kh'') ''Bob showed [Ah Kh]'']"
    by code_simp
  have s: "showdown_lines showed_example_hand = [''Bob: shows [Ah Kh]'']"
    by (simp add: showdown_lines_def a Action_def)
  show ?thesis
    using showdown_header_iff_showdown_street [OF w] w
    by (simp add: a s Action_def)
qed

section \<open>The segmenter\<close>

lemma splitlines_from_line:
  "\<not> list_ex is_linebreak l \<Longrightarrow>
   splitlines_from cur (l @ CHR 0x0A # rest) = (cur @ l) # splitlines_from [] rest"
proof (induction l arbitrary: cur)
  case Nil
  then show ?case by (simp add: is_linebreak_def)
next
  case (Cons c l)
  then have c: "\<not> is_linebreak c" and l: "\<not> list_ex is_linebreak l" by simp_all
  from c have "c \<noteq> CHR 0x0D" by (auto simp: is_linebreak_def)
  then show ?case using c Cons.IH [OF l, of "cur @ [c]"] by simp
qed

lemma splitlines_from_last:
  "\<not> list_ex is_linebreak l \<Longrightarrow> cur @ l \<noteq> [] \<Longrightarrow> splitlines_from cur l = [cur @ l]"
proof (induction l arbitrary: cur)
  case Nil
  then show ?case by simp
next
  case (Cons c l)
  then have c: "\<not> is_linebreak c" and l: "\<not> list_ex is_linebreak l" by simp_all
  from c have "c \<noteq> CHR 0x0D" by (auto simp: is_linebreak_def)
  then show ?case using c Cons.IH [OF l, of "cur @ [c]"] by simp
qed

lemma splitlines_from_unlines:
  "list_all (\<lambda>l. \<not> list_ex is_linebreak l) ls \<Longrightarrow>
   splitlines_from [] (unlines ls @ rest) = ls @ splitlines_from [] rest"
proof (induction ls)
  case Nil
  then show ?case by (simp add: unlines_def)
next
  case (Cons l ls)
  then have l: "\<not> list_ex is_linebreak l"
    and ls: "list_all (\<lambda>l. \<not> list_ex is_linebreak l) ls" by simp_all
  have "unlines (l # ls) @ rest = l @ CHR 0x0A # (unlines ls @ rest)"
    by (simp add: unlines_def)
  then show ?case using splitlines_from_line [OF l, of "[]"] Cons.IH [OF ls] by simp
qed

lemma plain_lines_no_break:
  "list_all plain_line b \<Longrightarrow> list_all (\<lambda>l. \<not> list_ex is_linebreak l) b"
  by (induction b) (simp_all add: plain_line_def)

lemma splitlines_from_blocks:
  "list_all well_formed_block bs \<Longrightarrow>
   splitlines_from [] (blocks_text bs @ rest) =
     concat (map (\<lambda>b. b @ [[]]) bs) @ splitlines_from [] rest"
proof (induction bs)
  case Nil
  then show ?case by (simp add: blocks_text_def)
next
  case (Cons b bs)
  then have wb: "well_formed_block b" and bs: "list_all well_formed_block bs"
    by simp_all
  from wb have b: "list_all (\<lambda>l. \<not> list_ex is_linebreak l) b"
    by (simp add: well_formed_block_def plain_lines_no_break)
  have t: "blocks_text (b # bs) @ rest = unlines b @ (CHR 0x0A # (blocks_text bs @ rest))"
    by (simp add: blocks_text_def)
  have e: "splitlines_from [] (CHR 0x0A # (blocks_text bs @ rest)) =
           [] # splitlines_from [] (blocks_text bs @ rest)"
    by (simp add: is_linebreak_def)
  show ?case
    unfolding t using splitlines_from_unlines [OF b] e Cons.IH [OF bs] by simp
qed

lemma segment_loop_plain:
  "list_all plain_line b \<Longrightarrow>
   segment_loop chunks buf (b @ rest) = segment_loop chunks (buf @ b) rest"
  by (induction b arbitrary: buf) (simp_all add: plain_line_def)

lemma segment_loop_block:
  assumes "well_formed_block b"
  shows "segment_loop chunks [] (b @ [] # rest) = segment_loop (chunks @ [chunk_of b]) [] rest"
proof -
  from assms have p: "list_all plain_line b" and m: "list_ex (contains ''*** HOLE CARDS ***'') b"
    by (simp_all add: well_formed_block_def)
  from m have ne: "b \<noteq> []" by auto
  have s: "strip [] = []" by (simp add: strip_def rstrip_def lstrip_def)
  have "segment_loop chunks [] (b @ [] # rest) = segment_loop chunks b ([] # rest)"
    using segment_loop_plain [OF p, of chunks "[]" "[] # rest"] by simp
  then show ?thesis using ne m s by (simp add: chunk_of_def)
qed

lemma segment_loop_blocks:
  "list_all well_formed_block bs \<Longrightarrow>
   segment_loop chunks [] (concat (map (\<lambda>b. b @ [[]]) bs) @ rest) =
     segment_loop (chunks @ map chunk_of bs) [] rest"
proof (induction bs arbitrary: chunks)
  case Nil
  then show ?case by simp
next
  case (Cons b bs)
  then have b: "well_formed_block b" and bs: "list_all well_formed_block bs" by simp_all
  show ?case
    using segment_loop_block [OF b, of chunks] Cons.IH [OF bs, of "chunks @ [chunk_of b]"]
    by simp
qed

lemma join_unlines:
  "ts \<noteq> [] \<Longrightarrow> join [CHR 0x0A] ts = unlines (butlast ts) @ last ts"
proof (induction ts)
  case Nil
  then show ?case by simp
next
  case (Cons t ts)
  then show ?case by (cases ts) (simp_all add: unlines_def)
qed

text \<open>
  C4. The segmenter gives no chunk for the empty text. For the text of \<open>N\<close> well-formed
  hand blocks, each ended by an empty line, it gives the \<open>N\<close> chunks of the blocks in
  their order. When lines that are not blank follow the last block, without an empty
  line after them, they are one more chunk, the last.
\<close>

theorem segment_blocks:
  "segment [] = [] \<and>
   (list_all well_formed_block bs \<longrightarrow>
      segment (blocks_text bs) = map chunk_of bs \<and>
      length (segment (blocks_text bs)) = length bs) \<and>
   (list_all well_formed_block bs \<and> ts \<noteq> [] \<and> list_all plain_line ts \<longrightarrow>
      segment (blocks_text bs @ join [CHR 0x0A] ts) = map chunk_of bs @ [chunk_of ts])"
proof (intro conjI impI)
  show "segment [] = []" by (simp add: segment_def splitlines_def)
next
  assume wf: "list_all well_formed_block bs"
  have "splitlines (blocks_text bs) = concat (map (\<lambda>b. b @ [[]]) bs)"
    using splitlines_from_blocks [OF wf, of "[]"] by (simp add: splitlines_def)
  then show eq: "segment (blocks_text bs) = map chunk_of bs"
    using segment_loop_blocks [OF wf, of "[]" "[]"] by (simp add: segment_def)
  then show "length (segment (blocks_text bs)) = length bs" by simp
next
  assume a: "list_all well_formed_block bs \<and> ts \<noteq> [] \<and> list_all plain_line ts"
  then have wf: "list_all well_formed_block bs" and ne: "ts \<noteq> []"
    and pl: "list_all plain_line ts" by simp_all
  have bl: "list_all plain_line (butlast ts)" and la: "plain_line (last ts)"
    using pl ne by (auto simp: list_all_iff dest: in_set_butlastD)
  from la have lne: "last ts \<noteq> []" and lnb: "\<not> list_ex is_linebreak (last ts)"
    by (auto simp: plain_line_def strip_def rstrip_def lstrip_def)
  have "splitlines_from [] (unlines (butlast ts) @ last ts) = butlast ts @ [last ts]"
    using splitlines_from_unlines [OF plain_lines_no_break [OF bl], of "last ts"]
      splitlines_from_last [OF lnb, of "[]"] lne by simp
  then have sp: "splitlines (blocks_text bs @ join [CHR 0x0A] ts) =
                 concat (map (\<lambda>b. b @ [[]]) bs) @ ts"
    using splitlines_from_blocks [OF wf, of "join [CHR 0x0A] ts"] join_unlines [OF ne] ne
    by (simp add: splitlines_def)
  have "segment_loop (map chunk_of bs) [] (ts @ []) = segment_loop (map chunk_of bs) ts []"
    using segment_loop_plain [OF pl, of "map chunk_of bs" "[]" "[]"] by simp
  then show "segment (blocks_text bs @ join [CHR 0x0A] ts) = map chunk_of bs @ [chunk_of ts]"
    using segment_loop_blocks [OF wf, of "[]" ts] sp ne
    by (simp add: segment_def chunk_of_def)
qed

theorem segment_blocks_witness:
  "list_all well_formed_block segment_example_blocks \<and>
   segment_example_tail \<noteq> [] \<and> list_all plain_line segment_example_tail \<and>
   segment (blocks_text segment_example_blocks) =
     [''Game 1\<newline>*** HOLE CARDS ***\<newline>Bob: folds'', ''Game 2\<newline>*** HOLE CARDS ***''] \<and>
   length (segment (blocks_text segment_example_blocks)) = 2 \<and>
   segment (blocks_text segment_example_blocks @ join [CHR 0x0A] segment_example_tail) =
     [''Game 1\<newline>*** HOLE CARDS ***\<newline>Bob: folds'', ''Game 2\<newline>*** HOLE CARDS ***'',
      ''Game 3\<newline>*** HOLE CARDS ***\<newline>Al: checks'']"
proof -
  have wf: "list_all well_formed_block segment_example_blocks"
    by code_simp
  have ts: "segment_example_tail \<noteq> []" "list_all plain_line segment_example_tail"
    by code_simp+
  have c: "map chunk_of segment_example_blocks =
             [''Game 1\<newline>*** HOLE CARDS ***\<newline>Bob: folds'', ''Game 2\<newline>*** HOLE CARDS ***'']"
          "chunk_of segment_example_tail = ''Game 3\<newline>*** HOLE CARDS ***\<newline>Al: checks''"
    by code_simp+
  show ?thesis
    using segment_blocks [of segment_example_blocks segment_example_tail] wf ts
    by (simp add: c)
qed

section \<open>The parser: what each scan leaves alone\<close>

lemma foldl_keeps:
  assumes "\<And>s x. g (f s x) = g s"
  shows "g (foldl f s xs) = g s"
  using assms by (induction xs arbitrary: s) simp_all

lemma fold_err_keeps:
  assumes "\<And>s x s'. f s x = Inr s' \<Longrightarrow> g s' = g s"
    and "fold_err f s xs = Inr t"
  shows "g t = g s"
  using assms(2)
proof (induction xs arbitrary: s)
  case Nil
  then show ?case by simp
next
  case (Cons x xs)
  then obtain s' where s': "f s x = Inr s'" and r: "fold_err f s' xs = Inr t"
    by (auto split: sum.splits)
  show ?case using Cons.IH [OF r] assms(1) [OF s'] by simp
qed

lemma scan_table_keeps:
  assumes "scan_table h ln = Inr h'"
  shows "game h' = game h" "blinds h' = blinds h" "currency h' = currency h"
    "hero h' = hero h" "hero_hole h' = hero_hole h" "board h' = board h"
    "actions h' = actions h"
  using assms by (auto simp: scan_table_def split: option.splits sum.splits)

lemma scan_seat_keeps:
  assumes "scan_seat h ln = Inr h'"
  shows "game h' = game h" "blinds h' = blinds h" "currency h' = currency h"
    "hero h' = hero h" "hero_hole h' = hero_hole h" "board h' = board h"
    "actions h' = actions h"
  using assms by (auto simp: scan_seat_def split: option.splits sum.splits)

lemma scan_posts_keeps:
  "game (scan_posts h ln) = game h" "hero (scan_posts h ln) = hero h"
  "hero_hole (scan_posts h ln) = hero_hole h" "board (scan_posts h ln) = board h"
  "actions (scan_posts h ln) = actions h"
  by (auto simp: scan_posts_def Let_def split: option.splits)

lemma scan_dealt_keeps:
  "game (scan_dealt h ln) = game h" "blinds (scan_dealt h ln) = blinds h"
  "currency (scan_dealt h ln) = currency h" "board (scan_dealt h ln) = board h"
  "actions (scan_dealt h ln) = actions h"
  by (auto simp: scan_dealt_def split: option.splits)

lemma scan_line_keeps:
  "game (snd (scan_line sh ln)) = game (snd sh)"
  "blinds (snd (scan_line sh ln)) = blinds (snd sh)"
  "currency (snd (scan_line sh ln)) = currency (snd sh)"
  "hero (snd (scan_line sh ln)) = hero (snd sh)"
  "hero_hole (snd (scan_line sh ln)) = hero_hole (snd sh)"
  by (auto simp: scan_line_def Let_def split: option.splits)

lemma parse_header_keeps:
  "blinds (parse_header sp h ln) = blinds h" "currency (parse_header sp h ln) = currency h"
  "hero (parse_header sp h ln) = hero h" "hero_hole (parse_header sp h ln) = hero_hole h"
  "board (parse_header sp h ln) = board h" "actions (parse_header sp h ln) = actions h"
  by (auto simp: parse_header_def Let_def split: option.splits)

lemma parse_header_game:
  "game h = ''Hold'' @ [CHR 0x27] @ ''em No Limit'' \<Longrightarrow>
   game (parse_header sp h ln) = ''Hold'' @ [CHR 0x27] @ ''em No Limit''"
  by (auto simp: parse_header_def Let_def split: option.splits)

text \<open>The steps of \<open>parse_one\<close> on a chunk that has a line.\<close>

lemma parse_one_steps:
  assumes "parse_one sp c = Inr (Some h)"
  obtains l0 ls h1 h2 where
    "chunk_lines c = l0 # ls"
    "fold_err scan_table (parse_header sp Hand l0) (take 8 (l0 # ls)) = Inr h1"
    "fold_err scan_seat h1 (l0 # ls) = Inr h2"
    "h = snd (foldl scan_line
               (''PREFLOP'', foldl scan_dealt (foldl scan_posts h2 (l0 # ls)) (l0 # ls))
               (l0 # ls))"
  using assms
  by (auto simp: parse_one_def Let_def split: list.splits sum.splits)

lemma parse_one_None: "parse_one sp c = Inr None \<longleftrightarrow> chunk_lines c = []"
  by (auto simp: parse_one_def Let_def split: list.splits sum.splits)

lemma has_hand_the_hand: "has_hand r \<Longrightarrow> r = Inr (Some (the_hand r))"
  by (auto simp: has_hand_def the_hand_def split: sum.splits option.splits)

section \<open>Matching lines written out in full\<close>

text \<open>
  What the patterns of the posts and of the action give on a line whose parts are
  known: the name before the colon, the words after it, and the text where the amount
  stands. The lazy \<open>.+?\<close> of the name stops at the first colon when the name has none; a
  single space is all that \<open>\s+\<close> takes before a character that is no white space; and
  the greedy \<open>\d+\<close> takes every digit when what follows the digits matches.
\<close>

lemma lower_char_id: "c \<notin> set ''ABCDEFGHIJKLMNOPQRSTUVWXYZ'' \<Longrightarrow> lower_char c = c"
proof -
  assume "c \<notin> set ''ABCDEFGHIJKLMNOPQRSTUVWXYZ''"
  moreover have "length ''ABCDEFGHIJKLMNOPQRSTUVWXYZ'' = length ''abcdefghijklmnopqrstuvwxyz''"
    by simp
  ultimately have "map_of (zip ''ABCDEFGHIJKLMNOPQRSTUVWXYZ'' ''abcdefghijklmnopqrstuvwxyz'') c = None"
    by (simp only: map_of_zip_is_None simp_thms)
  then show ?thesis by (simp only: lower_char_def option.case)
qed

lemma lower_char_cases:
  "lower_char c = c \<or> lower_char c \<in> set ''abcdefghijklmnopqrstuvwxyz''"
proof (cases "map_of (zip ''ABCDEFGHIJKLMNOPQRSTUVWXYZ'' ''abcdefghijklmnopqrstuvwxyz'') c")
  case None
  then show ?thesis by (simp only: lower_char_def option.case simp_thms)
next
  case (Some d)
  then have "(c, d) \<in> set (zip ''ABCDEFGHIJKLMNOPQRSTUVWXYZ'' ''abcdefghijklmnopqrstuvwxyz'')"
    by (rule map_of_SomeD)
  then have "d \<in> set ''abcdefghijklmnopqrstuvwxyz''" by (rule set_zip_rightD)
  moreover have "lower_char c = d" using Some by (simp only: lower_char_def option.case)
  ultimately show ?thesis by (simp only: simp_thms)
qed

lemma lower_char_colon: "lower_char c = CHR '':'' \<longleftrightarrow> c = CHR '':''"
proof
  assume a: "lower_char c = CHR '':''"
  have "CHR '':'' \<notin> set ''abcdefghijklmnopqrstuvwxyz''" by simp
  with lower_char_cases [of c] a show "c = CHR '':''" by metis
next
  assume "c = CHR '':''"
  then show "lower_char c = CHR '':''" by (simp add: lower_char_id)
qed

lemma lower_char_star: "lower_char c = CHR ''*'' \<longleftrightarrow> c = CHR ''*''"
proof
  assume a: "lower_char c = CHR ''*''"
  have "CHR ''*'' \<notin> set ''abcdefghijklmnopqrstuvwxyz''" by simp
  with lower_char_cases [of c] a show "c = CHR ''*''" by metis
next
  assume "c = CHR ''*''"
  then show "lower_char c = CHR ''*''" by (simp add: lower_char_id)
qed

lemma lower_char_digit: "is_digit c \<Longrightarrow> lower_char c = c"
  by (rule lower_char_id) (auto simp: is_digit_def)

lemma starts_with_ci_append: "starts_with_ci l (l @ s)"
  by (induction l) simp_all

lemma rx_Lit_no_colon:
  "t = [] \<or> hd t \<noteq> CHR '':'' \<Longrightarrow> rx (Seq (Lit '':'') R) k t m = None"
proof -
  assume a: "t = [] \<or> hd t \<noteq> CHR '':''"
  have b: "lower_char (CHR '':'') = CHR '':''" by (simp add: lower_char_colon)
  show ?thesis
  proof (cases t)
    case Nil
    then show ?thesis by simp
  next
    case (Cons c cs)
    then have "lower_char c \<noteq> CHR '':''" using a by (simp add: lower_char_colon)
    then show ?thesis using Cons b by auto
  qed
qed

lemma rep_greedy_one:
  "p c \<Longrightarrow> s = [] \<or> \<not> p (hd s) \<Longrightarrow> rep_greedy p (Suc 0) None k (c # s) = k s"
  by (cases s) (auto split: option.splits)


lemma rep_greedy_all:
  "list_all p xs \<Longrightarrow> r = [] \<or> \<not> p (hd r) \<Longrightarrow> lo \<le> length xs \<Longrightarrow> k r = Some res \<Longrightarrow>
   rep_greedy p lo None k (xs @ r) = Some res"
proof (induction xs arbitrary: lo)
  case Nil
  then show ?case by (cases r) auto
next
  case (Cons x xs)
  then have "rep_greedy p (lo - 1) None k (xs @ r) = Some res" by simp
  then show ?case using Cons.prems by simp
qed

lemma rep_greedy_zero: "rep_greedy p 0 (Some 0) k s = k s"
  by (cases s) simp_all

lemma rep_greedy_maybe:
  "rep_greedy p 0 (Some (Suc 0)) k (c # s) =
     (if p c then (case k s of Some r \<Rightarrow> Some r | None \<Rightarrow> k (c # s)) else k (c # s))"
  by (simp add: rep_greedy_zero)

lemma rep_lazy_skip:
  "(\<And>t. t \<noteq> [] \<Longrightarrow> hd t \<in> set xs \<Longrightarrow> k t = None) \<Longrightarrow> list_all p xs \<Longrightarrow>
   rep_lazy p 0 None k (xs @ r) = rep_lazy p 0 None k r"
  by (induction xs) simp_all


lemma rx_name_colon:
  assumes "nm \<noteq> []" and "\<forall>c\<in>set nm. c \<noteq> CHR '':'' \<and> c \<noteq> CHR 0x0A"
  shows "rx (Seq (Group g (LazyPlus AnyChar)) (Seq (Lit '':'') R)) k (nm @ CHR '':'' # s) m =
         (case rx R k s ((g, nm) # m) of
            Some r \<Rightarrow> Some r
          | None \<Rightarrow>
              rep_lazy (in_class AnyChar) 0 None
                (\<lambda>t. rx (Seq (Lit '':'') R) k t
                        ((g, take (length (nm @ CHR '':'' # s) - length t) (nm @ CHR '':'' # s)) # m))
                s)"
proof -
  define F where "F = (\<lambda>t. rx (Seq (Lit '':'') R) k t
    ((g, take (length (nm @ CHR '':'' # s) - length t) (nm @ CHR '':'' # s)) # m))"
  obtain x xs where nm: "nm = x # xs" using assms(1) by (cases nm) auto
  have skip: "F t = None" if "t \<noteq> []" "hd t \<in> set xs" for t
    unfolding F_def using that assms(2) nm by (intro rx_Lit_no_colon) auto
  have all: "list_all (in_class AnyChar) xs" using assms(2) nm by (auto simp: list_all_iff)
  have x: "in_class AnyChar x" using assms(2) nm by simp
  have colon: "lower_char (CHR '':'') = CHR '':''" by (simp add: lower_char_colon)
  have "rx (Seq (Group g (LazyPlus AnyChar)) (Seq (Lit '':'') R)) k (nm @ CHR '':'' # s) m =
        rep_lazy (in_class AnyChar) (Suc 0) None F (nm @ CHR '':'' # s)"
    unfolding F_def by (simp del: rep_lazy.simps)
  also have "\<dots> = rep_lazy (in_class AnyChar) 0 None F (xs @ CHR '':'' # s)"
    using x nm by simp
  also have "\<dots> = rep_lazy (in_class AnyChar) 0 None F (CHR '':'' # s)"
    using skip all by (rule rep_lazy_skip)
  also have "\<dots> = (case F (CHR '':'' # s) of Some r \<Rightarrow> Some r
                     | None \<Rightarrow> rep_lazy (in_class AnyChar) 0 None F s)"
    by (simp split: option.splits)
  finally have a: "rx (Seq (Group g (LazyPlus AnyChar)) (Seq (Lit '':'') R)) k (nm @ CHR '':'' # s) m =
     (case F (CHR '':'' # s) of Some r \<Rightarrow> Some r
      | None \<Rightarrow> rep_lazy (in_class AnyChar) 0 None F s)" .
  have b: "F (CHR '':'' # s) = rx R k s ((g, nm) # m)"
    unfolding F_def by (simp add: colon)
  have "rx (Seq (Group g (LazyPlus AnyChar)) (Seq (Lit '':'') R)) k (nm @ CHR '':'' # s) m =
     (case rx R k s ((g, nm) # m) of Some r \<Rightarrow> Some r
      | None \<Rightarrow> rep_lazy (in_class AnyChar) 0 None F s)"
    by (simp only: a b)
  then show ?thesis unfolding F_def .
qed

lemma rx_name_colon_Some:
  assumes "nm \<noteq> []" and "\<forall>c\<in>set nm. c \<noteq> CHR '':'' \<and> c \<noteq> CHR 0x0A"
    and "rx R k s ((g, nm) # m) = Some r"
  shows "rx (Seq (Group g (LazyPlus AnyChar)) (Seq (Lit '':'') R)) k (nm @ CHR '':'' # s) m = Some r"
  by (simp only: rx_name_colon [OF assms(1,2)] assms(3) option.case)



lemma rx_Seq_space:
  "s = [] \<or> \<not> is_space (hd s) \<Longrightarrow> rx (Seq (Plus Space) R) k (CHR '' '' # s) m = rx R k s m"
proof -
  assume a: "s = [] \<or> \<not> is_space (hd s)"
  have "in_class Space (CHR '' '')" by (simp add: is_space_def)
  moreover have "s = [] \<or> \<not> in_class Space (hd s)" using a by simp
  ultimately have "rep_greedy (in_class Space) (Suc 0) None (\<lambda>t. rx R k t m) (CHR '' '' # s) =
    rx R k s m"
    by (rule rep_greedy_one)
  then show ?thesis by (simp del: rep_greedy.simps)
qed

lemma in_class_sign:
  "in_class (OneOf [CHR ''$'', CHR 0xA3, CHR 0xA5]) c \<longleftrightarrow> c \<in> set [CHR ''$'', CHR 0xA3, CHR 0xA5]"
proof -
  have n: "x \<notin> set ''abcdefghijklmnopqrstuvwxyz'' \<Longrightarrow> x \<notin> set ''ABCDEFGHIJKLMNOPQRSTUVWXYZ'' \<Longrightarrow>
    lower_char c = x \<longleftrightarrow> c = x" for x
    using lower_char_cases [of c] lower_char_id [of x] by metis
  have "lower_char c = CHR ''$'' \<longleftrightarrow> c = CHR ''$''" by (rule n) simp_all
  moreover have "lower_char c = CHR 0xA3 \<longleftrightarrow> c = CHR 0xA3" by (rule n) simp_all
  moreover have "lower_char c = CHR 0xA5 \<longleftrightarrow> c = CHR 0xA5" by (rule n) simp_all
  moreover have "lower_char (CHR ''$'') = CHR ''$''" by (rule lower_char_id) simp
  moreover have "lower_char (CHR 0xA3) = CHR 0xA3" by (rule lower_char_id) simp
  moreover have "lower_char (CHR 0xA5) = CHR 0xA5" by (rule lower_char_id) simp
  ultimately show ?thesis by simp
qed



lemma rx_Group_Alt:
  "rx (Seq (Group g (Alt a b)) T) k s m =
     (case rx (Seq (Group g a) T) k s m of Some r \<Rightarrow> Some r | None \<Rightarrow> rx (Seq (Group g b) T) k s m)"
  by (simp split: option.splits)

lemma rx_Group_Lit: "rx (Seq (Group g (Lit l)) T) k (l @ s) m = rx T k s ((g, l) # m)"
  by (simp add: starts_with_ci_append)

lemma rx_Group_Lit_none:
  "\<not> starts_with_ci l s \<Longrightarrow> rx (Seq (Group g (Lit l)) T) k s m = None"
  by simp



lemma decimal_shape:
  assumes "float_of_decimal dec = Some x"
  obtains ip where "ip \<noteq> []" and "list_all is_digit ip"
    and "dec = ip \<or> (\<exists>fp. fp \<noteq> [] \<and> list_all is_digit fp \<and> dec = ip @ CHR ''.'' # fp)"
proof -
  let ?ip = "takeWhile is_digit dec"
  let ?rest = "dropWhile is_digit dec"
  have d: "list_all is_digit ?ip" by (auto simp: list_all_iff dest: set_takeWhileD)
  have e: "?ip \<noteq> []" using assms by (auto simp: float_of_decimal_def Let_def split: if_splits)
  show thesis
  proof (cases ?rest)
    case Nil
    then have "dec = ?ip" using takeWhile_dropWhile_id [of is_digit dec] by (metis append_Nil2)
    then show thesis using that [of ?ip] d e by metis
  next
    case (Cons c fp)
    then have "c = CHR ''.'' \<and> fp \<noteq> [] \<and> list_all is_digit fp"
      using assms e by (auto simp: float_of_decimal_def Let_def split: if_splits)
    moreover have "dec = ?ip @ c # fp"
      using takeWhile_dropWhile_id [of is_digit dec] Cons by metis
    ultimately show thesis using that [of ?ip] d e by blast
  qed
qed

lemma rx_number_Some:
  assumes "float_of_decimal dec = Some x" and "k [] ((g, dec) # m) = Some r"
  shows "rx (Group g number) k dec m = Some r"
proof -
  define K where "K = (\<lambda>t m'. k t ((g, take (length dec - length t) dec) # m'))"
  define Q where "Q = (\<lambda>t. rx (Opt (Seq (Lit ''.'') (Plus Digit))) K t m)"
  have K: "K [] m = Some r" unfolding K_def using assms(2) by simp
  have u: "rx (Group g number) k dec m = rep_greedy (in_class Digit) (Suc 0) None Q dec"
    unfolding Q_def K_def number_def by (simp del: rep_greedy.simps)
  obtain ip where ip: "ip \<noteq> []" "list_all is_digit ip"
    and sh: "dec = ip \<or> (\<exists>fp. fp \<noteq> [] \<and> list_all is_digit fp \<and> dec = ip @ CHR ''.'' # fp)"
    using assms(1) by (rule decimal_shape)
  have dip: "list_all (in_class Digit) ip" using ip(2) by (simp add: list_all_iff)
  have lip: "Suc 0 \<le> length ip" using ip(1) by (cases ip) simp_all
  from sh show ?thesis
  proof
    assume a: "dec = ip"
    have "Q [] = Some r" unfolding Q_def using K by simp
    then have "rep_greedy (in_class Digit) (Suc 0) None Q (ip @ []) = Some r"
      using dip lip by (intro rep_greedy_all) auto
    then show ?thesis using u a by simp
  next
    assume "\<exists>fp. fp \<noteq> [] \<and> list_all is_digit fp \<and> dec = ip @ CHR ''.'' # fp"
    then obtain fp where fp: "fp \<noteq> []" "list_all is_digit fp" and a: "dec = ip @ CHR ''.'' # fp"
      by blast
    have dfp: "list_all (in_class Digit) fp" using fp(2) by (simp add: list_all_iff)
    have lfp: "Suc 0 \<le> length fp" using fp(1) by (cases fp) simp_all
    have "rep_greedy (in_class Digit) (Suc 0) None (\<lambda>t. K t m) (fp @ []) = Some r"
      using dfp lfp K by (intro rep_greedy_all) auto
    then have "Q (CHR ''.'' # fp) = Some r"
      unfolding Q_def by (simp add: lower_char_def del: rep_greedy.simps)
    moreover have "\<not> in_class Digit (CHR ''.'')" by (simp add: is_digit_def)
    ultimately have "rep_greedy (in_class Digit) (Suc 0) None Q (ip @ CHR ''.'' # fp) = Some r"
      using dip lip by (intro rep_greedy_all) auto
    then show ?thesis using u a by simp
  qed
qed

lemma decimal_hd: "float_of_decimal dec = Some x \<Longrightarrow> dec \<noteq> [] \<and> is_digit (hd dec)"
  by (erule decimal_shape) (auto simp: neq_Nil_conv)

lemma digit_not_sign: "is_digit d \<Longrightarrow> d \<notin> set [CHR ''$'', CHR 0xA3, CHR 0xA5]"
  by (auto simp: is_digit_def)

lemma rx_sign_number_Some:
  assumes "sign \<in> set [[], ''$'', [CHR 0xA3], [CHR 0xA5]]"
    and "float_of_decimal dec = Some x"
    and "k [] ((a, dec) # (c, sign) # m) = Some r"
  shows "rx (Seq (Group c cur_sign) (Group a number)) k (sign @ dec) m = Some r"
proof -
  have n: "rx (Group a number) k dec ((c, sign) # m) = Some r"
    using assms(2,3) by (rule rx_number_Some)
  obtain d ds where dec: "dec = d # ds" and d: "is_digit d"
    using decimal_hd [OF assms(2)] by (cases dec) auto
  show ?thesis
  proof (cases "sign = []")
    case True
    then show ?thesis
      using n dec digit_not_sign [OF d]
      by (simp add: cur_sign_def rep_greedy_maybe in_class_sign del: rep_greedy.simps in_class.simps)
  next
    case False
    then obtain s where s: "sign = [s]" "s \<in> set [CHR ''$'', CHR 0xA3, CHR 0xA5]"
      using assms(1) by auto
    then show ?thesis
      using n
      by (simp add: cur_sign_def rep_greedy_maybe in_class_sign del: rep_greedy.simps in_class.simps)
  qed
qed

lemma sign_number_hd:
  assumes "sign \<in> set [[], ''$'', [CHR 0xA3], [CHR 0xA5]]" and "float_of_decimal dec = Some x"
  shows "\<not> is_space (hd (sign @ dec))" and "lower_char (hd (sign @ dec)) \<noteq> CHR ''t''"
proof -
  obtain d ds where dec: "dec = d # ds" and d: "is_digit d"
    using decimal_hd [OF assms(2)] by (cases dec) auto
  have "\<not> is_space d" "lower_char d \<noteq> CHR ''t''"
    using d lower_char_digit [OF d] by (auto simp: is_digit_def is_space_def)
  moreover have "\<not> is_space (CHR ''$'')" "\<not> is_space (CHR 0xA3)" "\<not> is_space (CHR 0xA5)"
    by (simp_all add: is_space_def)
  moreover have "lower_char (CHR ''$'') \<noteq> CHR ''t''" "lower_char (CHR 0xA3) \<noteq> CHR ''t''"
    "lower_char (CHR 0xA5) \<noteq> CHR ''t''"
    by (simp_all add: lower_char_id)
  ultimately show "\<not> is_space (hd (sign @ dec))" and "lower_char (hd (sign @ dec)) \<noteq> CHR ''t''"
    using assms(1) dec by auto
qed

lemma rx_amount_Some:
  assumes "sign \<in> set [[], ''$'', [CHR 0xA3], [CHR 0xA5]]"
    and "float_of_decimal dec = Some x"
    and "k [] ((a, dec) # (c, sign) # m) = Some r"
  shows "rx (Opt (Seq (Plus Space) (Seq (Group c cur_sign) (Group a number)))) k
           (CHR '' '' # sign @ dec) m = Some r"
proof -
  have "rx (Seq (Plus Space) (Seq (Group c cur_sign) (Group a number))) k
          (CHR '' '' # sign @ dec) m = Some r"
    using sign_number_hd(1) [OF assms(1,2)]
    by (simp only: rx_Seq_space rx_sign_number_Some [where k = k, OF assms] simp_thms)
  then show ?thesis by (simp only: rx.simps option.case)
qed

lemma rx_amount_empty:
  "rx (Opt (Seq (Plus Space) T)) k [] m = k [] m"
  by simp

lemma pat_action_eq:
  "pat_action =
     Seq (Group ''name'' (LazyPlus AnyChar)) (Seq (Lit '':'') (Seq (Plus Space)
       (Seq (Group ''verb''
               (Alt (Lit ''folds'') (Alt (Lit ''calls'') (Alt (Lit ''checks'') (Alt (Lit ''bets'')
                 (Alt (Lit ''raises to'') (Alt (Lit ''raises'') (Lit ''collected''))))))))
            (Opt (Seq (Plus Space) (Seq (Group ''cur'' cur_sign) (Group ''amt'' number)))))))"
  by (simp add: pat_action_def)

lemma rx_verb:
  assumes "v \<in> set [''raises to'', ''raises'', ''collected'']"
    and "\<not> starts_with_ci '' to'' rest"
    and "rx T k rest ((g, v) # m) = Some r"
  shows "rx (Seq (Group g
               (Alt (Lit ''folds'') (Alt (Lit ''calls'') (Alt (Lit ''checks'') (Alt (Lit ''bets'')
                 (Alt (Lit ''raises to'') (Alt (Lit ''raises'') (Lit ''collected''))))))))
            T) k (v @ rest) m = Some r"
proof -
  consider "v = ''raises to''" | "v = ''raises''" | "v = ''collected''"
    using assms(1) by auto
  then show ?thesis
  proof cases
    case 1
    have n: "\<not> starts_with_ci ''folds'' (''raises to'' @ rest)"
      "\<not> starts_with_ci ''calls'' (''raises to'' @ rest)"
      "\<not> starts_with_ci ''checks'' (''raises to'' @ rest)"
      "\<not> starts_with_ci ''bets'' (''raises to'' @ rest)"
      by (simp_all add: lower_char_def)
    show ?thesis
      using assms(3) unfolding 1
      by (simp only: rx_Group_Alt rx_Group_Lit rx_Group_Lit_none [OF n(1)]
          rx_Group_Lit_none [OF n(2)] rx_Group_Lit_none [OF n(3)] rx_Group_Lit_none [OF n(4)]
          option.case)
  next
    case 2
    have n: "\<not> starts_with_ci ''folds'' (''raises'' @ rest)"
      "\<not> starts_with_ci ''calls'' (''raises'' @ rest)"
      "\<not> starts_with_ci ''checks'' (''raises'' @ rest)"
      "\<not> starts_with_ci ''bets'' (''raises'' @ rest)"
      by (simp_all add: lower_char_def)
    have "starts_with_ci ''raises to'' (''raises'' @ rest) = starts_with_ci '' to'' rest"
      by (simp add: lower_char_def)
    then have t: "\<not> starts_with_ci ''raises to'' (''raises'' @ rest)"
      using assms(2) by simp
    show ?thesis
      using assms(3) unfolding 2
      by (simp only: rx_Group_Alt rx_Group_Lit rx_Group_Lit_none [OF n(1)]
          rx_Group_Lit_none [OF n(2)] rx_Group_Lit_none [OF n(3)] rx_Group_Lit_none [OF n(4)]
          rx_Group_Lit_none [OF t] option.case)
  next
    case 3
    have n: "\<not> starts_with_ci ''folds'' (''collected'' @ rest)"
      "\<not> starts_with_ci ''calls'' (''collected'' @ rest)"
      "\<not> starts_with_ci ''checks'' (''collected'' @ rest)"
      "\<not> starts_with_ci ''bets'' (''collected'' @ rest)"
      "\<not> starts_with_ci ''raises to'' (''collected'' @ rest)"
      "\<not> starts_with_ci ''raises'' (''collected'' @ rest)"
      by (simp_all add: lower_char_def)
    show ?thesis
      using assms(3) unfolding 3
      by (simp only: rx_Group_Alt rx_Group_Lit rx_Group_Lit_none [OF n(1)]
          rx_Group_Lit_none [OF n(2)] rx_Group_Lit_none [OF n(3)] rx_Group_Lit_none [OF n(4)]
          rx_Group_Lit_none [OF n(5)] rx_Group_Lit_none [OF n(6)] option.case)
  qed
qed

lemma verb_hd:
  "v \<in> set [''raises to'', ''raises'', ''collected''] \<Longrightarrow> \<not> is_space (hd (v @ rest))"
  by (auto simp: is_space_def)

lemma pat_action_amount:
  assumes "name_text nm" and "v \<in> set [''raises to'', ''raises'', ''collected'']"
    and "sign \<in> set [[], ''$'', [CHR 0xA3], [CHR 0xA5]]"
    and "float_of_decimal dec = Some x"
  shows "re_match pat_action (nm @ '': '' @ v @ '' '' @ sign @ dec) =
           Some [(''amt'', dec), (''cur'', sign), (''verb'', v), (''name'', nm)]"
proof -
  let ?k = "\<lambda>(t :: string) (m :: captures). Some m"
  have s: "nm @ '': '' @ v @ '' '' @ sign @ dec =
           nm @ CHR '':'' # (CHR '' '' # (v @ (CHR '' '' # sign @ dec)))"
    by simp
  have nm: "nm \<noteq> []" "\<forall>c\<in>set nm. c \<noteq> CHR '':'' \<and> c \<noteq> CHR 0x0A"
    using assms(1) by (simp_all add: name_text_def list_all_iff)
  have t: "lower_char (CHR ''t'') = CHR ''t''" by (simp add: lower_char_def)
  have "sign @ dec \<noteq> []" using decimal_hd [OF assms(4)] by simp
  then have to: "\<not> starts_with_ci '' to'' (CHR '' '' # sign @ dec)"
    using sign_number_hd(2) [OF assms(3,4)] t by (cases "sign @ dec") auto
  have a: "rx (Opt (Seq (Plus Space) (Seq (Group ''cur'' cur_sign) (Group ''amt'' number)))) ?k
             (CHR '' '' # sign @ dec) [(''verb'', v), (''name'', nm)] =
           Some [(''amt'', dec), (''cur'', sign), (''verb'', v), (''name'', nm)]"
    by (rule rx_amount_Some [OF assms(3,4)]) simp
  show ?thesis
    unfolding re_match_def pat_action_eq s
    by (rule rx_name_colon_Some [OF nm])
      (simp only: rx_Seq_space [OF disjI2 [OF verb_hd [OF assms(2)]]] rx_verb [OF assms(2) to a])
qed

lemma pat_action_plain:
  assumes "name_text nm" and "v \<in> set [''raises to'', ''raises'', ''collected'']"
  shows "re_match pat_action (nm @ '': '' @ v) = Some [(''verb'', v), (''name'', nm)]"
proof -
  let ?k = "\<lambda>(t :: string) (m :: captures). Some m"
  have s: "nm @ '': '' @ v = nm @ CHR '':'' # (CHR '' '' # (v @ []))"
    by simp
  have nm: "nm \<noteq> []" "\<forall>c\<in>set nm. c \<noteq> CHR '':'' \<and> c \<noteq> CHR 0x0A"
    using assms(1) by (simp_all add: name_text_def list_all_iff)
  have to: "\<not> starts_with_ci '' to'' []" by simp
  have a: "rx (Opt (Seq (Plus Space) (Seq (Group ''cur'' cur_sign) (Group ''amt'' number)))) ?k
             [] [(''verb'', v), (''name'', nm)] = Some [(''verb'', v), (''name'', nm)]"
    by (simp only: rx_amount_empty)
  show ?thesis
    unfolding re_match_def pat_action_eq s
    by (rule rx_name_colon_Some [OF nm])
      (simp only: rx_Seq_space [OF disjI2 [OF verb_hd [OF assms(2)]]] rx_verb [OF assms(2) to a])
qed

lemma pat_street_no_star:
  assumes "ln = [] \<or> hd ln \<noteq> CHR ''*''"
  shows "re_match pat_street ln = None"
proof (cases ln)
  case Nil
  then show ?thesis by (simp add: re_match_def pat_street_def)
next
  case (Cons c cs)
  then have "lower_char c \<noteq> CHR ''*''" using assms by (simp add: lower_char_star)
  moreover have "lower_char (CHR ''*'') = CHR ''*''" by (simp add: lower_char_star)
  ultimately show ?thesis using Cons by (auto simp: re_match_def pat_street_def)
qed

section \<open>Action lines written out in full\<close>

lemma raises_normalised:
  "contains ''raises to'' ''raises'' = False" "contains ''raises to'' ''raises to'' = True"
  "contains ''raises to'' ''collected'' = False"
  by code_simp+

lemma verb_lower:
  "v \<in> set [''raises to'', ''raises'', ''collected''] \<Longrightarrow> map lower_char v = v"
  by (auto simp: lower_char_def)

lemma normalize_name_hd: "player_name nm \<Longrightarrow> hd (nm @ s) \<noteq> CHR ''*''"
  by (cases nm) (simp_all add: player_name_def name_text_def)

lemma scan_line_verb_amount:
  assumes "player_name nm" and "v \<in> set [''raises to'', ''raises'', ''collected'']"
    and "sign \<in> set [[], ''$'', [CHR 0xA3], [CHR 0xA5]]"
    and "float_of_decimal dec = Some x"
  shows "scan_line (st, h) (nm @ '': '' @ v @ '' '' @ sign @ dec) =
           (st, h\<lparr>actions := actions h @
                    [Action st (normalize_name nm) (if v = ''raises to'' then ''raises'' else v)
                       (Some x) None (nm @ '': '' @ v @ '' '' @ sign @ dec)]\<rparr>)"
proof -
  let ?ln = "nm @ '': '' @ v @ '' '' @ sign @ dec"
  have s: "re_match pat_street ?ln = None"
    by (rule pat_street_no_star) (use normalize_name_hd [OF assms(1)] in simp)
  have a: "re_match pat_action ?ln =
             Some [(''amt'', dec), (''cur'', sign), (''verb'', v), (''name'', nm)]"
    using assms by (intro pat_action_amount) (simp_all add: player_name_def)
  have d: "dec \<noteq> []" using decimal_hd [OF assms(4)] by simp
  have g: "grp [(''amt'', dec), (''cur'', sign), (''verb'', v), (''name'', nm)] ''name'' = nm"
    "grp [(''amt'', dec), (''cur'', sign), (''verb'', v), (''name'', nm)] ''verb'' = v"
    "opt_grp [(''amt'', dec), (''cur'', sign), (''verb'', v), (''name'', nm)] ''amt'' = Some dec"
    by (simp_all add: grp_def opt_grp_def)
  have c: "(if contains ''raises to'' v then ''raises'' else v) =
           (if v = ''raises to'' then ''raises'' else v)"
    using assms(2) raises_normalised by auto
  show ?thesis
    unfolding scan_line_def
    by (simp only: Let_def fst_conv snd_conv s a option.case g verb_lower [OF assms(2)] c d
        safe_float_def assms(4) not_False_eq_True if_True)
qed

lemma scan_line_verb_plain:
  assumes "player_name nm" and "v \<in> set [''raises to'', ''raises'', ''collected'']"
  shows "scan_line (st, h) (nm @ '': '' @ v) =
           (st, h\<lparr>actions := actions h @
                    [Action st (normalize_name nm) (if v = ''raises to'' then ''raises'' else v)
                       None None (nm @ '': '' @ v)]\<rparr>)"
proof -
  let ?ln = "nm @ '': '' @ v"
  have s: "re_match pat_street ?ln = None"
    by (rule pat_street_no_star) (use normalize_name_hd [OF assms(1)] in simp)
  have a: "re_match pat_action ?ln = Some [(''verb'', v), (''name'', nm)]"
    using assms by (intro pat_action_plain) (simp_all add: player_name_def)
  have g: "grp [(''verb'', v), (''name'', nm)] ''name'' = nm"
    "grp [(''verb'', v), (''name'', nm)] ''verb'' = v"
    "opt_grp [(''verb'', v), (''name'', nm)] ''amt'' = None"
    by (simp_all add: grp_def opt_grp_def)
  have c: "(if contains ''raises to'' v then ''raises'' else v) =
           (if v = ''raises to'' then ''raises'' else v)"
    using assms(2) raises_normalised by auto
  show ?thesis
    unfolding scan_line_def
    by (simp only: Let_def fst_conv snd_conv s a option.case g verb_lower [OF assms(2)] c)
qed

section \<open>The parser: the game label\<close>

text \<open>
  C10. For every chunk that has a line the record has the game label
  \<open>Hold'em No Limit\<close>, whatever the header says: the game that the alternate header
  pattern captures is only tested, and the label is set to the constant it already has.
  A chunk gives no record exactly when it has no line that is not blank.
\<close>

theorem game_label_constant:
  "(parse_one sp c = Inr (Some h) \<longrightarrow> game h = ''Hold'' @ [CHR 0x27] @ ''em No Limit'') \<and>
   (parse_one sp c = Inr None \<longleftrightarrow> chunk_lines c = [])"
proof (intro conjI impI)
  assume a: "parse_one sp c = Inr (Some h)"
  from a obtain l0 ls h1 h2 where
    t: "fold_err scan_table (parse_header sp Hand l0) (take 8 (l0 # ls)) = Inr h1"
    and s: "fold_err scan_seat h1 (l0 # ls) = Inr h2"
    and h: "h = snd (foldl scan_line
               (''PREFLOP'', foldl scan_dealt (foldl scan_posts h2 (l0 # ls)) (l0 # ls))
               (l0 # ls))"
    by (rule parse_one_steps)
  have g0: "game (parse_header sp Hand l0) = ''Hold'' @ [CHR 0x27] @ ''em No Limit''"
    by (rule parse_header_game) (simp add: Hand_def)
  have g1: "game h1 = game (parse_header sp Hand l0)"
    using fold_err_keeps [where g = game, OF scan_table_keeps(1) t] .
  have g2: "game h2 = game h1"
    using fold_err_keeps [where g = game, OF scan_seat_keeps(1) s] .
  have g3: "game (foldl scan_posts h2 xs) = game h2" for xs
    by (rule foldl_keeps) (rule scan_posts_keeps)
  have g4: "game (foldl scan_dealt x xs) = game x" for x xs
    by (rule foldl_keeps) (rule scan_dealt_keeps)
  have g5: "game (snd (foldl scan_line x xs)) = game (snd x)" for x xs
    by (rule foldl_keeps [where g = "\<lambda>x. game (snd x)"]) (rule scan_line_keeps)
  show "game h = ''Hold'' @ [CHR 0x27] @ ''em No Limit''"
    unfolding h by (simp only: g5 snd_conv g4 g3 g2 g1 g0)
next
  show "parse_one sp c = Inr None \<longleftrightarrow> chunk_lines c = []" by (rule parse_one_None)
qed

theorem game_label_constant_witness:
  "parse_one strptime_none alt_header_text =
     Inr (Some (the_hand (parse_one strptime_none alt_header_text))) \<and>
   map_option (\<lambda>m. grp m ''game'') (re_match pat_alt_header ''2024.01.01 - Holdem Pot Limit 1/2'') =
     Some ''Holdem'' \<and>
   game (the_hand (parse_one strptime_none alt_header_text)) =
     ''Hold'' @ [CHR 0x27] @ ''em No Limit'' \<and>
   parse_one strptime_none [] = Inr None \<and> chunk_lines [] = []"
proof -
  have "has_hand (parse_one strptime_none alt_header_text)"
    by code_simp
  then have p: "parse_one strptime_none alt_header_text =
     Inr (Some (the_hand (parse_one strptime_none alt_header_text)))"
    by (rule has_hand_the_hand)
  have m: "map_option (\<lambda>m. grp m ''game'')
             (re_match pat_alt_header ''2024.01.01 - Holdem Pot Limit 1/2'') = Some ''Holdem''"
    by code_simp
  have e: "chunk_lines [] = []"
    by code_simp
  show ?thesis
    using game_label_constant [of strptime_none alt_header_text
        "the_hand (parse_one strptime_none alt_header_text)"]
      game_label_constant [of strptime_none "[]"] p m e
    by simp
qed

section \<open>The writer: the summary\<close>

text \<open>
  C9. The claim: for every record in which the amount of an action is optional, \<open>write\<close>
  returns a text, and lists every collected action with its amount in the summary.
  The code does not: a collected action without an amount makes \<open>write\<close> raise a
  \<open>TypeError\<close>, where \<open>_format_action\<close> looks at the amount of a call, a bet and a raise
  before it formats it. The parser builds such a record from the line \<open>Bob: collected\<close>,
  which the action pattern matches without an amount, so \<open>convert_file\<close> raises on that
  text.
\<close>

theorem collected_without_amount_raises:
  "write_hand collected_no_amount_hand = Inl TypeError \<and>
   map_sum id (map actions) (parse strptime_none ''Bob: collected'') =
     Inr [actions collected_no_amount_hand] \<and>
   convert_text strptime_none ''Bob: collected'' = Inl TypeError"
  by code_simp

section \<open>The parser: the cards of the hero\<close>

lemma foldl_scan_dealt_unmatched:
  "list_all (\<lambda>l. re_match pat_dealt l = None) ls \<Longrightarrow> foldl scan_dealt h ls = h"
  by (induction ls arbitrary: h) (simp_all add: scan_dealt_def)

lemma foldl_scan_dealt_last:
  assumes "re_match pat_dealt ln = Some dm"
    and "list_all (\<lambda>l. re_match pat_dealt l = None) post"
  shows "hero (foldl scan_dealt h (pre @ ln # post)) = Some (normalize_name (grp dm ''name''))"
    and "hero_hole (foldl scan_dealt h (pre @ ln # post)) = Some (strip (grp dm ''cards''))"
  using assms by (simp_all add: foldl_scan_dealt_unmatched scan_dealt_def)

text \<open>
  C3. The claim: of several lines that deal hole cards to the hero, the first one gives
  the name and the cards of the record. The loop over the lines has no \<open>break\<close> and every
  match assigns both fields again: in the chunk below both lines match, the first names
  \<open>Hero\<close>, and the record has \<open>Villain\<close> and the cards of the second line.
\<close>

theorem first_dealt_line_overwritten:
  "map (\<lambda>l. map_option (\<lambda>m. grp m ''name'') (re_match pat_dealt l))
     (chunk_lines two_dealt_text) = [Some ''Hero'', Some ''Villain''] \<and>
   map_sum id (map_option (\<lambda>h. (hero h, hero_hole h))) (parse_one strptime_none two_dealt_text) =
     Inr (Some (Some ''Villain'', Some ''2c 3d''))"
  by code_simp

text \<open>
  C3 as the code has it: the last line of the chunk that the pattern of the dealt cards
  matches gives the name and the cards of the hero, whatever lines come before it.
\<close>

theorem last_dealt_line_wins:
  assumes "parse_one sp c = Inr (Some h)"
    and "chunk_lines c = pre @ ln # post"
    and "re_match pat_dealt ln = Some dm"
    and "list_all (\<lambda>l. re_match pat_dealt l = None) post"
  shows "hero h = Some (normalize_name (grp dm ''name'')) \<and>
         hero_hole h = Some (strip (grp dm ''cards''))"
proof -
  from assms(1) obtain l0 ls h1 h2 where
    c: "chunk_lines c = l0 # ls"
    and h: "h = snd (foldl scan_line
               (''PREFLOP'', foldl scan_dealt (foldl scan_posts h2 (l0 # ls)) (l0 # ls))
               (l0 # ls))"
    by (rule parse_one_steps)
  have l: "l0 # ls = pre @ ln # post" using c assms(2) by simp
  have k1: "hero (snd (foldl scan_line x xs)) = hero (snd x)" for x xs
    by (rule foldl_keeps [where g = "\<lambda>x. hero (snd x)"]) (rule scan_line_keeps)
  have k2: "hero_hole (snd (foldl scan_line x xs)) = hero_hole (snd x)" for x xs
    by (rule foldl_keeps [where g = "\<lambda>x. hero_hole (snd x)"]) (rule scan_line_keeps)
  show ?thesis
    unfolding h l
    by (simp only: k1 k2 snd_conv foldl_scan_dealt_last [OF assms(3,4)])
qed

theorem last_dealt_line_wins_witness:
  "parse_one strptime_none two_dealt_text =
     Inr (Some (the_hand (parse_one strptime_none two_dealt_text))) \<and>
   chunk_lines two_dealt_text = [''Dealt to Hero [Ah Kh]''] @ ''Dealt to Villain [2c 3d]'' # [] \<and>
   re_match pat_dealt ''Dealt to Villain [2c 3d]'' =
     Some [(''cards'', ''2c 3d''), (''name'', ''Villain'')] \<and>
   list_all (\<lambda>l. re_match pat_dealt l = None) [] \<and>
   hero (the_hand (parse_one strptime_none two_dealt_text)) = Some ''Villain'' \<and>
   hero_hole (the_hand (parse_one strptime_none two_dealt_text)) = Some ''2c 3d''"
proof -
  have "has_hand (parse_one strptime_none two_dealt_text)"
    by code_simp
  then have p: "parse_one strptime_none two_dealt_text =
     Inr (Some (the_hand (parse_one strptime_none two_dealt_text)))"
    by (rule has_hand_the_hand)
  have c: "chunk_lines two_dealt_text =
             [''Dealt to Hero [Ah Kh]''] @ ''Dealt to Villain [2c 3d]'' # []"
    by code_simp
  have m: "re_match pat_dealt ''Dealt to Villain [2c 3d]'' =
             Some [(''cards'', ''2c 3d''), (''name'', ''Villain'')]"
    by code_simp
  have n: "list_all (\<lambda>l. re_match pat_dealt l = None) []"
    by simp
  have v: "normalize_name (grp [(''cards'', ''2c 3d''), (''name'', ''Villain'')] ''name'') = ''Villain''"
          "strip (grp [(''cards'', ''2c 3d''), (''name'', ''Villain'')] ''cards'') = ''2c 3d''"
    by code_simp+
  show ?thesis
    using last_dealt_line_wins [OF p c m n] p c m
    by (simp add: v)
qed

section \<open>The parser: the boards\<close>

text \<open>
  C5. The claim: the board mapping of a record has entries for \<open>FLOP\<close>, \<open>TURN\<close> and
  \<open>RIVER\<close> only, as the comment at the field \<open>board\<close> says. The street loop stores the
  board of every marker line that has one under the street that the marker enters: the
  chunk below gives a record with a board for \<open>PREFLOP\<close> and one for \<open>SUMMARY\<close>.
\<close>

theorem board_recorded_for_other_streets:
  "map_sum id
     (map_option (\<lambda>h. map (board h)
        [''PREFLOP'', ''FLOP'', ''TURN'', ''RIVER'', ''SHOWDOWN'', ''SUMMARY'']))
     (parse_one strptime_none marker_board_text) =
   Inr (Some [Some ''[Ah Kh]'', None, None, None, None, Some ''[Ah Kd 2c]''])"
  by code_simp

section \<open>The parser: collected and showed lines\<close>

lemma scan_line_unclaimed:
  "unclaimed ln \<Longrightarrow>
   scan_line (st, h) ln =
     (st, case summary_or_showdown ln of
            Some a \<Rightarrow> h\<lparr>actions := actions h @ [a]\<rparr>
          | None \<Rightarrow> h)"
  by (auto simp: unclaimed_def scan_line_def summary_or_showdown_def collected_action_def
        showed_action_def Let_def split: option.splits)

lemma scan_line_actions:
  "\<exists>as. actions (snd (scan_line sh ln)) = actions (snd sh) @ as \<and> list_all (\<lambda>a. raw a = ln) as"
  by (auto simp: scan_line_def Let_def Action_def split: option.splits)

lemma scan_line_settled:
  assumes "settled (snd sh)"
  shows "settled (snd (scan_line sh ln))"
proof (cases "unclaimed ln")
  case True
  obtain st h where sh: "sh = (st, h)" by (cases sh)
  have r: "raw (collected_action cm ln) = ln" "raw (showed_action sm ln) = ln" for cm sm
    by (simp_all add: collected_action_def showed_action_def Action_def)
  have "summary_or_showdown ln = Some a \<Longrightarrow> raw a = ln" for a
    using r by (auto simp: summary_or_showdown_def split: option.splits)
  then show ?thesis
    using assms True
    by (auto simp: sh scan_line_unclaimed settled_def split: option.splits)
next
  case False
  obtain as where as: "actions (snd (scan_line sh ln)) = actions (snd sh) @ as"
    "list_all (\<lambda>a. raw a = ln) as"
    using scan_line_actions by blast
  have "list_all (\<lambda>a. unclaimed (raw a) \<longrightarrow> summary_or_showdown (raw a) = Some a) as"
    using as(2) False by (auto simp: list_all_iff)
  then show ?thesis using assms by (simp add: settled_def as(1))
qed

lemma foldl_scan_line_settled:
  "settled (snd sh) \<Longrightarrow> settled (snd (foldl scan_line sh ls))"
  by (induction ls arbitrary: sh) (simp_all add: scan_line_settled)

lemma foldl_scan_line_mono:
  "a \<in> set (actions (snd sh)) \<Longrightarrow> a \<in> set (actions (snd (foldl scan_line sh ls)))"
proof (induction ls arbitrary: sh)
  case Nil
  then show ?case by simp
next
  case (Cons l ls)
  obtain as where "actions (snd (scan_line sh l)) = actions (snd sh) @ as"
    using scan_line_actions by blast
  then have "a \<in> set (actions (snd (scan_line sh l)))" using Cons.prems by simp
  then show ?case using Cons.IH by simp
qed

lemma foldl_scan_line_appends:
  assumes "ln \<in> set ls" "unclaimed ln" "summary_or_showdown ln = Some a"
  shows "a \<in> set (actions (snd (foldl scan_line sh ls)))"
  using assms(1)
proof (induction ls arbitrary: sh)
  case Nil
  then show ?case by simp
next
  case (Cons l ls)
  show ?case
  proof (cases "l = ln")
    case True
    obtain st h where sh: "sh = (st, h)" by (cases sh)
    have "a \<in> set (actions (snd (scan_line sh l)))"
      using assms(2,3) True by (simp add: sh scan_line_unclaimed)
    then show ?thesis using foldl_scan_line_mono by simp
  next
    case False
    then have "ln \<in> set ls" using Cons.prems by simp
    then show ?thesis using Cons.IH by simp
  qed
qed

lemma parse_one_actions:
  assumes "parse_one sp c = Inr (Some h)"
  obtains h0 where "actions h0 = []"
    "h = snd (foldl scan_line (''PREFLOP'', h0) (chunk_lines c))"
proof -
  from assms obtain l0 ls h1 h2 where
    c: "chunk_lines c = l0 # ls"
    and t: "fold_err scan_table (parse_header sp Hand l0) (take 8 (l0 # ls)) = Inr h1"
    and s: "fold_err scan_seat h1 (l0 # ls) = Inr h2"
    and h: "h = snd (foldl scan_line
               (''PREFLOP'', foldl scan_dealt (foldl scan_posts h2 (l0 # ls)) (l0 # ls))
               (l0 # ls))"
    by (rule parse_one_steps)
  have a0: "actions (parse_header sp Hand l0) = []"
    by (simp add: parse_header_keeps Hand_def)
  have a1: "actions h1 = actions (parse_header sp Hand l0)"
    using fold_err_keeps [where g = actions, OF scan_table_keeps(7) t] .
  have a2: "actions h2 = actions h1"
    using fold_err_keeps [where g = actions, OF scan_seat_keeps(7) s] .
  have a3: "actions (foldl scan_posts x xs) = actions x" for x xs
    by (rule foldl_keeps) (rule scan_posts_keeps)
  have a4: "actions (foldl scan_dealt x xs) = actions x" for x xs
    by (rule foldl_keeps) (rule scan_dealt_keeps)
  have "actions (foldl scan_dealt (foldl scan_posts h2 (l0 # ls)) (l0 # ls)) = []"
    by (simp only: a4 a3 a2 a1 a0)
  then show ?thesis using that h c by simp
qed

lemma scan_line_fst: "fst (scan_line (st, h) ln) = fst (scan_line (st, h') ln)"
  by (auto simp: scan_line_def Let_def split: option.splits)

lemma foldl_scan_line_fst:
  "fst (foldl scan_line (st, h) ls) = fst (foldl scan_line (st, h') ls)"
proof (induction ls arbitrary: st h h')
  case Nil
  then show ?case by simp
next
  case (Cons l ls)
  obtain s1 h1 where a: "scan_line (st, h) l = (s1, h1)" by (cases "scan_line (st, h) l")
  obtain s2 h2 where b: "scan_line (st, h') l = (s2, h2)" by (cases "scan_line (st, h') l")
  have "s1 = s2" using scan_line_fst [of st h l h'] a b by simp
  then show ?case using Cons.IH [of s1 h1 h2] a b by simp
qed

lemma scan_line_action:
  assumes "re_match pat_street ln = None" and "re_match pat_action ln = Some am"
  shows "scan_line (st, h) ln =
           (st, h\<lparr>actions := actions h @
                    [Action st (normalize_name (grp am ''name'')) (action_verb am)
                       (action_amount am) None ln]\<rparr>)"
  using assms by (simp add: scan_line_def Let_def action_verb_def action_amount_def)

lemma foldl_scan_line_at:
  assumes "actions h0 = []"
    and "\<And>st h. scan_line (st, h) ln = (st, h\<lparr>actions := actions h @ [a st]\<rparr>)"
  shows "a (street_after pre)
           \<in> set (actions (snd (foldl scan_line (''PREFLOP'', h0) (pre @ ln # post))))"
proof -
  obtain s1 h1 where p: "foldl scan_line (''PREFLOP'', h0) pre = (s1, h1)"
    by (cases "foldl scan_line (''PREFLOP'', h0) pre")
  have "s1 = street_after pre"
    using foldl_scan_line_fst [of "''PREFLOP''" h0 pre Hand] p by (simp add: street_after_def)
  then have "a (street_after pre) \<in> set (actions (snd (scan_line (s1, h1) ln)))"
    by (simp add: assms(2))
  then have "a (street_after pre)
               \<in> set (actions (snd (foldl scan_line (scan_line (s1, h1) ln) post)))"
    by (rule foldl_scan_line_mono)
  then show ?thesis by (simp add: p)
qed

text \<open>
  C2. The claim: every line recognized as a collected amount is appended with the street
  \<open>SUMMARY\<close>, whatever the current street. The action pattern is tried before the
  collected pattern and has \<open>collected\<close> among its verbs: the line \<open>Bob: collected 5\<close>,
  which the collected pattern matches as well, is appended by the action branch with the
  current street, \<open>FLOP\<close> in the chunk below.
\<close>

theorem collected_line_tagged_current_street:
  "map_option (\<lambda>m. grp m ''amt'') (re_match pat_collected ''Bob: collected 5'') = Some ''5'' \<and>
   map_sum id (map_option (\<lambda>h. map (\<lambda>a. (street a, verb a, raw a)) (actions h)))
     (parse_one strptime_none flop_collected_text) =
     Inr (Some [(''FLOP'', ''collected'', ''Bob: collected 5'')])"
  by code_simp

text \<open>
  C2 as the code has it. A line that the patterns of the street marker and of the action
  do not match is appended with the street \<open>SUMMARY\<close> when the collected pattern matches
  it, and with the street \<open>SHOWDOWN\<close> when the collected pattern does not and the show
  pattern does; every action of the record made from that line is this one, whatever the
  street was when the line was read. A line that the pattern of the street marker does
  not match and the action pattern matches is appended with the verb that the action
  pattern took and with the street that is current when the line is read. Such are the
  lines \<open><name>: collected\<close> and \<open><name>: collected <sign><amount>\<close> that end there: they
  are appended with the verb \<open>collected\<close> and the current street.
\<close>

theorem collected_show_lines_street:
  assumes "parse_one sp c = Inr (Some h)"
    and "chunk_lines c = pre @ ln # post"
  shows "(re_match pat_street ln = None \<and> re_match pat_action ln = None \<and>
          re_match pat_collected ln = Some cm \<longrightarrow>
            collected_action cm ln \<in> set (actions h) \<and>
            street (collected_action cm ln) = ''SUMMARY'' \<and>
            list_all (\<lambda>a. raw a = ln \<longrightarrow> a = collected_action cm ln) (actions h)) \<and>
         (re_match pat_street ln = None \<and> re_match pat_action ln = None \<and>
          re_match pat_collected ln = None \<and> re_match pat_show ln = Some sm \<longrightarrow>
            showed_action sm ln \<in> set (actions h) \<and>
            street (showed_action sm ln) = ''SHOWDOWN'' \<and>
            list_all (\<lambda>a. raw a = ln \<longrightarrow> a = showed_action sm ln) (actions h)) \<and>
         (re_match pat_street ln = None \<and> re_match pat_action ln = Some am \<longrightarrow>
            Action (street_after pre) (normalize_name (grp am ''name'')) (action_verb am)
              (action_amount am) None ln \<in> set (actions h)) \<and>
         (player_name nm \<and> ln = nm @ '': collected'' \<longrightarrow>
            Action (street_after pre) (normalize_name nm) ''collected'' None None ln
              \<in> set (actions h)) \<and>
         (player_name nm \<and> sign \<in> set [[], ''$'', [CHR 0xA3], [CHR 0xA5]] \<and>
          float_of_decimal dec = Some x \<and> ln = nm @ '': collected '' @ sign @ dec \<longrightarrow>
            Action (street_after pre) (normalize_name nm) ''collected'' (Some x) None ln
              \<in> set (actions h))"
proof -
  from assms(1) obtain h0 where h0: "actions h0 = []"
    and h: "h = snd (foldl scan_line (''PREFLOP'', h0) (chunk_lines c))"
    by (rule parse_one_actions)
  have mem: "ln \<in> set (chunk_lines c)" by (simp add: assms(2))
  have "settled (snd (''PREFLOP'', h0))" by (simp add: settled_def h0)
  then have st: "settled h" unfolding h by (rule foldl_scan_line_settled)
  have only: "list_all (\<lambda>a. raw a = ln \<longrightarrow> summary_or_showdown ln = Some a) (actions h)"
    if "unclaimed ln"
    using st that by (auto simp: settled_def list_all_iff)
  have app: "a \<in> set (actions h)" if "unclaimed ln" "summary_or_showdown ln = Some a" for a
    unfolding h using mem that by (rule foldl_scan_line_appends)
  have at: "a (street_after pre) \<in> set (actions h)"
    if "\<And>st h. scan_line (st, h) ln = (st, h\<lparr>actions := actions h @ [a st]\<rparr>)" for a
    unfolding h assms(2) using h0 that by (rule foldl_scan_line_at)
  show ?thesis
  proof (intro conjI impI)
    assume m: "re_match pat_street ln = None \<and> re_match pat_action ln = None \<and>
          re_match pat_collected ln = Some cm"
    then have u: "unclaimed ln" by (simp add: unclaimed_def)
    from m have f: "summary_or_showdown ln = Some (collected_action cm ln)"
      by (simp add: summary_or_showdown_def)
    show "collected_action cm ln \<in> set (actions h)" using app [OF u f] .
    show "street (collected_action cm ln) = ''SUMMARY''"
      by (simp add: collected_action_def Action_def)
    show "list_all (\<lambda>a. raw a = ln \<longrightarrow> a = collected_action cm ln) (actions h)"
      using only [OF u] f by (auto simp: list_all_iff)
  next
    assume m: "re_match pat_street ln = None \<and> re_match pat_action ln = None \<and>
          re_match pat_collected ln = None \<and> re_match pat_show ln = Some sm"
    then have u: "unclaimed ln" by (simp add: unclaimed_def)
    from m have f: "summary_or_showdown ln = Some (showed_action sm ln)"
      by (simp add: summary_or_showdown_def)
    show "showed_action sm ln \<in> set (actions h)" using app [OF u f] .
    show "street (showed_action sm ln) = ''SHOWDOWN''"
      by (simp add: showed_action_def Action_def)
    show "list_all (\<lambda>a. raw a = ln \<longrightarrow> a = showed_action sm ln) (actions h)"
      using only [OF u] f by (auto simp: list_all_iff)
  next
    assume m: "re_match pat_street ln = None \<and> re_match pat_action ln = Some am"
    show "Action (street_after pre) (normalize_name (grp am ''name'')) (action_verb am)
              (action_amount am) None ln \<in> set (actions h)"
      by (rule at) (use m in \<open>simp only: scan_line_action\<close>)
  next
    assume m: "player_name nm \<and> ln = nm @ '': collected''"
    have "scan_line (st, h) ln =
            (st, h\<lparr>actions := actions h @
               [Action st (normalize_name nm) ''collected'' None None ln]\<rparr>)" for st h
      using scan_line_verb_plain [of nm "''collected''" st h] m by simp
    then show "Action (street_after pre) (normalize_name nm) ''collected'' None None ln
              \<in> set (actions h)"
      by (rule at)
  next
    assume m: "player_name nm \<and> sign \<in> set [[], ''$'', [CHR 0xA3], [CHR 0xA5]] \<and>
          float_of_decimal dec = Some x \<and> ln = nm @ '': collected '' @ sign @ dec"
    have "scan_line (st, h) ln =
            (st, h\<lparr>actions := actions h @
               [Action st (normalize_name nm) ''collected'' (Some x) None ln]\<rparr>)" for st h
      using scan_line_verb_amount [of nm "''collected''" sign dec x st h] m by simp
    then show "Action (street_after pre) (normalize_name nm) ''collected'' (Some x) None ln
              \<in> set (actions h)"
      by (rule at)
  qed
qed

theorem collected_show_lines_street_witness:
  "parse_one strptime_none summary_showdown_text =
     Inr (Some (the_hand (parse_one strptime_none summary_showdown_text))) \<and>
   chunk_lines summary_showdown_text = [''Al collected $5 from pot'', ''Bob showed [Ah Kh]''] \<and>
   re_match pat_street ''Al collected $5 from pot'' = None \<and>
   re_match pat_action ''Al collected $5 from pot'' = None \<and>
   re_match pat_collected ''Al collected $5 from pot'' =
     Some [(''amt'', ''5''), (''cur'', ''$''), (''name'', ''Al'')] \<and>
   re_match pat_street ''Bob showed [Ah Kh]'' = None \<and>
   re_match pat_action ''Bob showed [Ah Kh]'' = None \<and>
   re_match pat_collected ''Bob showed [Ah Kh]'' = None \<and>
   re_match pat_show ''Bob showed [Ah Kh]'' = Some [(''cards'', ''Ah Kh''), (''name'', ''Bob'')] \<and>
   collected_action [(''amt'', ''5''), (''cur'', ''$''), (''name'', ''Al'')] ''Al collected $5 from pot''
     \<in> set (actions (the_hand (parse_one strptime_none summary_showdown_text))) \<and>
   showed_action [(''cards'', ''Ah Kh''), (''name'', ''Bob'')] ''Bob showed [Ah Kh]''
     \<in> set (actions (the_hand (parse_one strptime_none summary_showdown_text))) \<and>
   map (\<lambda>a. (street a, actor a, verb a))
     (actions (the_hand (parse_one strptime_none summary_showdown_text))) =
     [(''SUMMARY'', ''Al'', ''collected''), (''SHOWDOWN'', ''Bob'', ''showed'')] \<and>
   parse_one strptime_none flop_collected_text =
     Inr (Some (the_hand (parse_one strptime_none flop_collected_text))) \<and>
   chunk_lines flop_collected_text = [''*** FLOP *** [Ah Kd 2c]'', ''Bob: collected 5''] \<and>
   street_after [''*** FLOP *** [Ah Kd 2c]''] = ''FLOP'' \<and>
   re_match pat_street ''Bob: collected 5'' = None \<and>
   re_match pat_action ''Bob: collected 5'' =
     Some [(''amt'', ''5''), (''cur'', []), (''verb'', ''collected''), (''name'', ''Bob'')] \<and>
   player_name ''Bob'' \<and>
   float_of_decimal ''5'' = Some (Finite 5629499534213120 (- 50)) \<and>
   Action ''FLOP'' ''Bob'' ''collected'' (Some (Finite 5629499534213120 (- 50))) None
     ''Bob: collected 5''
     \<in> set (actions (the_hand (parse_one strptime_none flop_collected_text))) \<and>
   parse_one strptime_none flop_collected_plain_text =
     Inr (Some (the_hand (parse_one strptime_none flop_collected_plain_text))) \<and>
   chunk_lines flop_collected_plain_text = [''*** FLOP *** [Ah Kd 2c]'', ''Bob: collected''] \<and>
   Action ''FLOP'' ''Bob'' ''collected'' None None ''Bob: collected''
     \<in> set (actions (the_hand (parse_one strptime_none flop_collected_plain_text)))"
proof -
  define am where "am = [(''amt'', ''5''), (''cur'', []), (''verb'', ''collected''),
                         (''name'', ''Bob'')]"
  define five where "five = Finite 5629499534213120 (- 50)"
  have "has_hand (parse_one strptime_none summary_showdown_text)"
    by code_simp
  then have p: "parse_one strptime_none summary_showdown_text =
     Inr (Some (the_hand (parse_one strptime_none summary_showdown_text)))"
    by (rule has_hand_the_hand)
  have c: "chunk_lines summary_showdown_text =
             [''Al collected $5 from pot'', ''Bob showed [Ah Kh]'']"
    by code_simp
  have c1: "chunk_lines summary_showdown_text =
              [] @ ''Al collected $5 from pot'' # [''Bob showed [Ah Kh]'']"
    and c2: "chunk_lines summary_showdown_text =
              [''Al collected $5 from pot''] @ ''Bob showed [Ah Kh]'' # []"
    by (simp_all add: c)
  have s1: "re_match pat_street ''Al collected $5 from pot'' = None"
    and a1: "re_match pat_action ''Al collected $5 from pot'' = None"
    and m1: "re_match pat_collected ''Al collected $5 from pot'' =
               Some [(''amt'', ''5''), (''cur'', ''$''), (''name'', ''Al'')]"
    by code_simp+
  have s2: "re_match pat_street ''Bob showed [Ah Kh]'' = None"
    and a2: "re_match pat_action ''Bob showed [Ah Kh]'' = None"
    and n2: "re_match pat_collected ''Bob showed [Ah Kh]'' = None"
    and m2: "re_match pat_show ''Bob showed [Ah Kh]'' =
               Some [(''cards'', ''Ah Kh''), (''name'', ''Bob'')]"
    by code_simp+
  have v: "map (\<lambda>a. (street a, actor a, verb a))
             (actions (the_hand (parse_one strptime_none summary_showdown_text))) =
           [(''SUMMARY'', ''Al'', ''collected''), (''SHOWDOWN'', ''Bob'', ''showed'')]"
    by code_simp
  have "has_hand (parse_one strptime_none flop_collected_text)"
    by code_simp
  then have q: "parse_one strptime_none flop_collected_text =
     Inr (Some (the_hand (parse_one strptime_none flop_collected_text)))"
    by (rule has_hand_the_hand)
  have d: "chunk_lines flop_collected_text = [''*** FLOP *** [Ah Kd 2c]'', ''Bob: collected 5'']"
    by code_simp
  have d1: "chunk_lines flop_collected_text =
              [''*** FLOP *** [Ah Kd 2c]''] @ ''Bob: collected 5'' # []"
    by (simp add: d)
  have "has_hand (parse_one strptime_none flop_collected_plain_text)"
    by code_simp
  then have r: "parse_one strptime_none flop_collected_plain_text =
     Inr (Some (the_hand (parse_one strptime_none flop_collected_plain_text)))"
    by (rule has_hand_the_hand)
  have e: "chunk_lines flop_collected_plain_text =
             [''*** FLOP *** [Ah Kd 2c]'', ''Bob: collected'']"
    by code_simp
  have e1: "chunk_lines flop_collected_plain_text =
              [''*** FLOP *** [Ah Kd 2c]''] @ ''Bob: collected'' # []"
    by (simp add: e)
  have sa: "street_after [''*** FLOP *** [Ah Kd 2c]''] = ''FLOP''"
    by code_simp
  have s3: "re_match pat_street ''Bob: collected 5'' = None"
    by code_simp
  have a3: "re_match pat_action ''Bob: collected 5'' = Some am"
    unfolding am_def by code_simp
  have g3: "normalize_name (grp am ''name'') = ''Bob''" "action_verb am = ''collected''"
    unfolding am_def by code_simp+
  have x3: "action_amount am = Some five"
    unfolding am_def five_def by code_simp
  have pb: "player_name ''Bob''"
    by (simp add: player_name_def name_text_def)
  have nb: "normalize_name ''Bob'' = ''Bob''"
    by code_simp
  have f: "float_of_decimal ''5'' = Some five"
    unfolding five_def by code_simp
  have w1: "collected_action [(''amt'', ''5''), (''cur'', ''$''), (''name'', ''Al'')]
              ''Al collected $5 from pot''
            \<in> set (actions (the_hand (parse_one strptime_none summary_showdown_text)))"
    using collected_show_lines_street [OF p c1,
        where cm = "[(''amt'', ''5''), (''cur'', ''$''), (''name'', ''Al'')]"] s1 a1 m1
    by simp
  have w2: "showed_action [(''cards'', ''Ah Kh''), (''name'', ''Bob'')] ''Bob showed [Ah Kh]''
            \<in> set (actions (the_hand (parse_one strptime_none summary_showdown_text)))"
    using collected_show_lines_street [OF p c2,
        where sm = "[(''cards'', ''Ah Kh''), (''name'', ''Bob'')]"] s2 a2 n2 m2
    by simp
  have w3: "Action ''FLOP'' ''Bob'' ''collected'' (Some five) None ''Bob: collected 5''
            \<in> set (actions (the_hand (parse_one strptime_none flop_collected_text)))"
    using collected_show_lines_street [OF q d1, where am = am] s3 a3
    by (simp add: g3 x3 sa)
  have w4: "Action ''FLOP'' ''Bob'' ''collected'' (Some five) None ''Bob: collected 5''
            \<in> set (actions (the_hand (parse_one strptime_none flop_collected_text)))"
    using collected_show_lines_street [OF q d1, where nm = "''Bob''" and sign = "[]"
        and dec = "''5''" and x = five] pb f
    by (simp add: nb sa)
  have w5: "Action ''FLOP'' ''Bob'' ''collected'' None None ''Bob: collected''
            \<in> set (actions (the_hand (parse_one strptime_none flop_collected_plain_text)))"
    using collected_show_lines_street [OF r e1, where nm = "''Bob''"] pb
    by (simp add: nb sa)
  show ?thesis
    using p c s1 a1 m1 s2 a2 n2 m2 w1 w2 v q d sa s3 a3 pb f w3 w4 r e w5
    by (simp add: am_def five_def)
qed

section \<open>Raises\<close>

text \<open>
  C6. The claim: every raise action renders as \<open><actor>: raises to <cur><amount>\<close>. A
  raise line without a number gives a raise action without an amount, and
  \<open>_format_action\<close> renders it as \<open><actor>: raises\<close>.
\<close>

theorem raise_without_amount_rendering:
  "map_sum id (map_option (\<lambda>h. map (\<lambda>a. (verb a, amount a, format_action a (write_cur h)))
                                    (actions h)))
     (parse_one strptime_none raise_no_amount_text) =
   Inr (Some [(''raises'', None, Some ''Bob: raises'')])"
  by code_simp

text \<open>
  C6 as the code has it: a raise action renders as \<open><actor>: raises to <cur><amount>\<close>
  when it has an amount and as \<open><actor>: raises\<close> when it has none, and an amount that is
  a number is printed with two decimals. A line \<open><name>: raises to <sign><amount>\<close> or
  \<open><name>: raises <sign><amount>\<close> that ends after the amount (the sign is optional, the
  amount is digits with an optional fraction) gives a raise action whose amount is the
  amount of the line, which renders as \<open><name>: raises to <cur><amount>\<close>; a line
  \<open><name>: raises\<close> or \<open><name>: raises to\<close> that ends there gives a raise action without
  an amount, which renders as \<open><name>: raises\<close>.
\<close>

theorem raise_rendering:
  "(verb a = ''raises'' \<longrightarrow>
      format_action a cur =
        Some (actor a @ '': raises'' @
              (case amount a of Some x \<Rightarrow> '' to '' @ cur @ fmt2 x | None \<Rightarrow> []))) \<and>
   (is_finite x \<longrightarrow> two_decimals (fmt2 x)) \<and>
   (player_name nm \<and> (v = ''raises'' \<or> v = ''raises to'') \<and>
    sign \<in> set [[], ''$'', [CHR 0xA3], [CHR 0xA5]] \<and> float_of_decimal dec = Some y \<longrightarrow>
      scan_line (st, h) (nm @ '': '' @ v @ '' '' @ sign @ dec) =
        (st, h\<lparr>actions := actions h @
                 [Action st (normalize_name nm) ''raises'' (Some y) None
                    (nm @ '': '' @ v @ '' '' @ sign @ dec)]\<rparr>) \<and>
      format_action (Action st (normalize_name nm) ''raises'' (Some y) None
                       (nm @ '': '' @ v @ '' '' @ sign @ dec)) cur =
        Some (normalize_name nm @ '': raises to '' @ cur @ fmt2 y)) \<and>
   (player_name nm \<and> (v = ''raises'' \<or> v = ''raises to'') \<longrightarrow>
      scan_line (st, h) (nm @ '': '' @ v) =
        (st, h\<lparr>actions := actions h @
                 [Action st (normalize_name nm) ''raises'' None None (nm @ '': '' @ v)]\<rparr>) \<and>
      format_action (Action st (normalize_name nm) ''raises'' None None (nm @ '': '' @ v)) cur =
        Some (normalize_name nm @ '': raises''))"
proof (intro conjI impI)
  assume "verb a = ''raises''"
  then show "format_action a cur =
        Some (actor a @ '': raises'' @
              (case amount a of Some x \<Rightarrow> '' to '' @ cur @ fmt2 x | None \<Rightarrow> []))"
    by (simp add: format_action_def split: option.splits)
next
  assume "is_finite x"
  then show "two_decimals (fmt2 x)" by (rule fmt2_two_decimals)
next
  assume a: "player_name nm \<and> (v = ''raises'' \<or> v = ''raises to'') \<and>
    sign \<in> set [[], ''$'', [CHR 0xA3], [CHR 0xA5]] \<and> float_of_decimal dec = Some y"
  then have v: "v \<in> set [''raises to'', ''raises'', ''collected'']"
    and r: "(if v = ''raises to'' then ''raises'' else v) = ''raises''"
    by auto
  show "scan_line (st, h) (nm @ '': '' @ v @ '' '' @ sign @ dec) =
        (st, h\<lparr>actions := actions h @
                 [Action st (normalize_name nm) ''raises'' (Some y) None
                    (nm @ '': '' @ v @ '' '' @ sign @ dec)]\<rparr>)"
    using scan_line_verb_amount [of nm v sign dec y st h] a v by (simp only: r)
next
  show "format_action (Action st (normalize_name nm) ''raises'' (Some y) None
                       (nm @ '': '' @ v @ '' '' @ sign @ dec)) cur =
        Some (normalize_name nm @ '': raises to '' @ cur @ fmt2 y)"
    by (simp add: format_action_def Action_def del: fmt2.simps)
next
  assume a: "player_name nm \<and> (v = ''raises'' \<or> v = ''raises to'')"
  then have v: "v \<in> set [''raises to'', ''raises'', ''collected'']"
    and r: "(if v = ''raises to'' then ''raises'' else v) = ''raises''"
    by auto
  show "scan_line (st, h) (nm @ '': '' @ v) =
        (st, h\<lparr>actions := actions h @
                 [Action st (normalize_name nm) ''raises'' None None (nm @ '': '' @ v)]\<rparr>)"
    using scan_line_verb_plain [of nm v st h] a v by (simp only: r)
next
  show "format_action (Action st (normalize_name nm) ''raises'' None None (nm @ '': '' @ v)) cur =
        Some (normalize_name nm @ '': raises'')"
    by (simp add: format_action_def Action_def)
qed

theorem raise_rendering_witness:
  "player_name ''Bob'' \<and> player_name ''Al'' \<and>
   float_of_decimal ''12.5'' = Some (Finite 7036874417766400 (- 49)) \<and>
   actions (snd (scan_line (''FLOP'', Hand) ''Bob: raises to $12.5'')) =
     [Action ''FLOP'' ''Bob'' ''raises'' (Some (Finite 7036874417766400 (- 49))) None
        ''Bob: raises to $12.5''] \<and>
   actions (snd (scan_line (''FLOP'', Hand) ''Al: raises 12.5'')) =
     [Action ''FLOP'' ''Al'' ''raises'' (Some (Finite 7036874417766400 (- 49))) None
        ''Al: raises 12.5''] \<and>
   actions (snd (scan_line (''FLOP'', Hand) ''Bob: raises'')) =
     [Action ''FLOP'' ''Bob'' ''raises'' None None ''Bob: raises''] \<and>
   is_finite (Finite 7036874417766400 (- 49)) \<and>
   two_decimals (fmt2 (Finite 7036874417766400 (- 49))) \<and>
   format_action (Action ''FLOP'' ''Bob'' ''raises'' (Some (Finite 7036874417766400 (- 49))) None
                    ''Bob: raises to $12.5'') ''$'' = Some ''Bob: raises to $12.50'' \<and>
   format_action (Action ''FLOP'' ''Al'' ''raises'' (Some (Finite 7036874417766400 (- 49))) None
                    ''Al: raises 12.5'') ''$'' = Some ''Al: raises to $12.50'' \<and>
   format_action (Action ''FLOP'' ''Bob'' ''raises'' None None ''Bob: raises'') ''$'' =
     Some ''Bob: raises'' \<and>
   map_sum id (map_option (\<lambda>h. map (\<lambda>a. format_action a (write_cur h)) (actions h)))
     (parse_one strptime_none raise_text) =
   Inr (Some [Some ''Bob: raises to $12.50'', Some ''Al: raises to $12.50''])"
proof -
  define y where "y = Finite 7036874417766400 (- 49)"
  define a where "a = Action ''FLOP'' ''Bob'' ''raises'' (Some y) None ''Bob: raises to $12.5''"
  have pb: "player_name ''Bob''" and pa: "player_name ''Al''"
    by (simp_all add: player_name_def name_text_def)
  have nb: "normalize_name ''Bob'' = ''Bob''" and na: "normalize_name ''Al'' = ''Al''"
    by code_simp+
  have f: "float_of_decimal ''12.5'' = Some y"
    unfolding y_def by code_simp
  have fin: "is_finite y"
    by (simp add: is_finite_def y_def)
  have d: "fmt2 y = ''12.50''"
    unfolding y_def by code_simp
  have h0: "actions Hand = []" by (simp add: Hand_def)
  have p: "map_sum id (map_option (\<lambda>h. map (\<lambda>a. format_action a (write_cur h)) (actions h)))
     (parse_one strptime_none raise_text) =
   Inr (Some [Some ''Bob: raises to $12.50'', Some ''Al: raises to $12.50''])"
    by code_simp
  have t1: "scan_line (''FLOP'', Hand) ''Bob: raises to $12.5'' =
      (''FLOP'', Hand\<lparr>actions := actions Hand @
         [Action ''FLOP'' ''Bob'' ''raises'' (Some y) None ''Bob: raises to $12.5'']\<rparr>)"
    and r1: "format_action (Action ''FLOP'' ''Bob'' ''raises'' (Some y) None
                              ''Bob: raises to $12.5'') ''$'' = Some ''Bob: raises to $12.50''"
    using raise_rendering [of a "''$''" y "''Bob''" "''raises to''" "''$''" "''12.5''" y
        "''FLOP''" Hand] pb f
    by (simp_all add: nb d del: fmt2.simps)
  have t2: "scan_line (''FLOP'', Hand) ''Al: raises 12.5'' =
      (''FLOP'', Hand\<lparr>actions := actions Hand @
         [Action ''FLOP'' ''Al'' ''raises'' (Some y) None ''Al: raises 12.5'']\<rparr>)"
    and r2: "format_action (Action ''FLOP'' ''Al'' ''raises'' (Some y) None
                              ''Al: raises 12.5'') ''$'' = Some ''Al: raises to $12.50''"
    using raise_rendering [of a "''$''" y "''Al''" "''raises''" "[]" "''12.5''" y
        "''FLOP''" Hand] pa f
    by (simp_all add: na d del: fmt2.simps)
  have t3: "scan_line (''FLOP'', Hand) ''Bob: raises'' =
      (''FLOP'', Hand\<lparr>actions := actions Hand @
         [Action ''FLOP'' ''Bob'' ''raises'' None None ''Bob: raises'']\<rparr>)"
    and r3: "format_action (Action ''FLOP'' ''Bob'' ''raises'' None None ''Bob: raises'') ''$'' =
               Some ''Bob: raises''"
    using raise_rendering [of a "''$''" y "''Bob''" "''raises''" "''$''" "''12.5''" y
        "''FLOP''" Hand] pb
    by (simp_all add: nb del: fmt2.simps)
  have td: "two_decimals (fmt2 y)"
    using raise_rendering [of a "''$''" y "''Bob''" "''raises''" "''$''" "''12.5''" y
        "''FLOP''" Hand] fin
    by blast
  show ?thesis
    using pb pa f t1 t2 t3 fin td r1 r2 r3 p
    by (simp add: y_def [symmetric] h0 del: fmt2.simps)
qed

section \<open>The parser: blind postings\<close>






















end
